(* ===== verification/Prelude.thy ===== *)
theory Prelude
  imports Main "HOL-Library.Word" "HOL-Library.Multiset"
begin

text \<open>
  Shared vocabulary of the development: the machine integer types of the C sources, the
  outcomes a C function can have besides returning (\<open>rte_exit\<close>, a failed \<open>assert\<close>, a
  dereferenced null pointer, an access outside an array, a division by zero, signed overflow, a
  floating point number converted to an integer type it does not fit), packet memory as bytes with
  little-endian loads and stores, and the memory-cell interface every fixed-width field of a
  packet satisfies.
\<close>

unbundle bit_operations_syntax

section \<open>Types\<close>

type_synonym u8 = "8 word"
type_synonym u16 = "16 word"
type_synonym u32 = "32 word"
type_synonym u64 = "64 word"

text \<open>The bytes of a packet buffer, indexed from the start of the packet data
  (\<open>rte_pktmbuf_mtod\<close>).\<close>

type_synonym mem = "nat \<Rightarrow> u8"

datatype c_error =
    Rte_Exit int string
  | Assert_Failed
  | Null_Deref
  | Out_Of_Bounds nat
  | Div_By_Zero
  | Int_Overflow
  | Bad_Conversion

type_synonym 'a res = "c_error + 'a"

text \<open>\<open>struct rte_ether_addr\<close>: six bytes, in transmission order.\<close>

datatype ether_addr = Ether_Addr u8 u8 u8 u8 u8 u8

text \<open>The range of \<open>int\<close>.\<close>

abbreviation (input) "INT_MIN \<equiv> - 2147483648 :: int"
abbreviation (input) "INT_MAX \<equiv> 2147483647 :: int"

section \<open>Collections of rewrite rules\<close>

named_theorems cell_simps
named_theorems trace_simps

section \<open>Copying bytes\<close>

text \<open>\<open>memcpy\<close> of the bytes \<open>bs\<close> to address \<open>a\<close>, and \<open>memset\<close> of \<open>n\<close> bytes.\<close>

definition st_bytes :: "mem \<Rightarrow> nat \<Rightarrow> u8 list \<Rightarrow> mem" where
  "st_bytes m a bs = (\<lambda>i. if a \<le> i \<and> i < a + length bs then bs ! (i - a) else m i)"

definition st_fill :: "mem \<Rightarrow> nat \<Rightarrow> u8 \<Rightarrow> nat \<Rightarrow> mem" where
  "st_fill m a v n = (\<lambda>i. if a \<le> i \<and> i < a + n then v else m i)"

lemma st_bytes_frame: "i < a \<or> a + length bs \<le> i \<Longrightarrow> st_bytes m a bs i = m i"
  by (auto simp: st_bytes_def)

lemma st_bytes_at: "i < length bs \<Longrightarrow> st_bytes m a bs (a + i) = bs ! i"
  by (simp add: st_bytes_def)

lemma st_fill_frame: "i < a \<or> a + n \<le> i \<Longrightarrow> st_fill m a v n i = m i"
  by (auto simp: st_fill_def)

lemma st_fill_at: "a \<le> i \<Longrightarrow> i < a + n \<Longrightarrow> st_fill m a v n i = v"
  by (simp add: st_fill_def)

section \<open>Memory cells\<close>

text \<open>
  A cell type occupies \<open>width\<close> consecutive bytes: what is stored is what is loaded, a store
  touches only its own bytes, a load depends only on its own bytes, and storing what was loaded
  elsewhere copies the bytes.
\<close>

locale mem_cell =
  fixes ld :: "mem \<Rightarrow> nat \<Rightarrow> 'a"
    and st :: "mem \<Rightarrow> nat \<Rightarrow> 'a \<Rightarrow> mem"
    and width :: nat
  assumes ld_st: "ld (st m a v) a = v"
    and st_frame: "i < a \<or> a + width \<le> i \<Longrightarrow> st m a v i = m i"
    and ld_cong: "(\<And>i. a \<le> i \<Longrightarrow> i < a + width \<Longrightarrow> m i = m' i) \<Longrightarrow> ld m a = ld m' a"
    and st_copy: "a \<le> i \<Longrightarrow> i < a + width \<Longrightarrow> st m a (ld m' b) i = m' (b + (i - a))"
begin

lemma st_ld: "st m a (ld m a) = m"
proof
  show "st m a (ld m a) i = m i" for i
    by (cases "a \<le> i \<and> i < a + width") (auto simp: st_copy st_frame)
qed

text \<open>A field copied from one place to another.\<close>

lemma st_ld_byte: "st m a (ld m' b) i = (if a \<le> i \<and> i < a + width then m' (b + (i - a)) else m i)"
  by (auto simp: st_copy st_frame)

lemma ld_unchanged:
  assumes "\<And>i. a \<le> i \<Longrightarrow> i < a + width \<Longrightarrow> m' i = m i"
  shows "ld m' a = ld m a"
  using assms by (rule ld_cong)

lemma st_same_ld: "ld m a = v \<Longrightarrow> st m a v = m"
  using st_ld by auto

lemma ld_past_bytes: "a + width \<le> b \<or> b + length bs \<le> a \<Longrightarrow> ld (st_bytes m b bs) a = ld m a"
  by (rule ld_unchanged) (auto simp: st_bytes_def)

lemma ld_past_fill: "a + width \<le> b \<or> b + n \<le> a \<Longrightarrow> ld (st_fill m b v n) a = ld m a"
  by (rule ld_unchanged) (auto simp: st_fill_def)

end

text \<open>Two cell types side by side: a load does not see a store to disjoint bytes.\<close>

locale mem_cells = x: mem_cell ldx stx wx + y: mem_cell ldy sty wy
  for ldx :: "mem \<Rightarrow> nat \<Rightarrow> 'a" and stx :: "mem \<Rightarrow> nat \<Rightarrow> 'a \<Rightarrow> mem" and wx :: nat
  and ldy :: "mem \<Rightarrow> nat \<Rightarrow> 'b" and sty :: "mem \<Rightarrow> nat \<Rightarrow> 'b \<Rightarrow> mem" and wy :: nat
begin

lemma ld_st_disjoint:
  assumes "a + wx \<le> b \<or> b + wy \<le> a"
  shows "ldx (sty m b v) a = ldx m a"
proof (rule x.ld_unchanged)
  fix i
  assume "a \<le> i" and "i < a + wx"
  with assms have "i < b \<or> b + wy \<le> i" by auto
  then show "sty m b v i = m i" by (rule y.st_frame)
qed

end

section \<open>Little-endian loads and stores\<close>

definition ld8 :: "mem \<Rightarrow> nat \<Rightarrow> u8" where
  "ld8 m a = m a"

definition st8 :: "mem \<Rightarrow> nat \<Rightarrow> u8 \<Rightarrow> mem" where
  "st8 m a v = m(a := v)"

definition ld16 :: "mem \<Rightarrow> nat \<Rightarrow> u16" where
  "ld16 m a = word_cat (m (a + 1)) (m a)"

definition st16 :: "mem \<Rightarrow> nat \<Rightarrow> u16 \<Rightarrow> mem" where
  "st16 m a v = m(a := ucast v, a + 1 := ucast (drop_bit 8 v))"

definition ld32 :: "mem \<Rightarrow> nat \<Rightarrow> u32" where
  "ld32 m a = word_cat (ld16 m (a + 2)) (ld16 m a)"

definition st32 :: "mem \<Rightarrow> nat \<Rightarrow> u32 \<Rightarrow> mem" where
  "st32 m a v = st16 (st16 m a (ucast v)) (a + 2) (ucast (drop_bit 16 v))"

definition ld64 :: "mem \<Rightarrow> nat \<Rightarrow> u64" where
  "ld64 m a = word_cat (ld32 m (a + 4)) (ld32 m a)"

definition st64 :: "mem \<Rightarrow> nat \<Rightarrow> u64 \<Rightarrow> mem" where
  "st64 m a v = st32 (st32 m a (ucast v)) (a + 4) (ucast (drop_bit 32 v))"

definition ld_mac :: "mem \<Rightarrow> nat \<Rightarrow> ether_addr" where
  "ld_mac m a = Ether_Addr (m a) (m (a + 1)) (m (a + 2)) (m (a + 3)) (m (a + 4)) (m (a + 5))"

primrec st_mac :: "mem \<Rightarrow> nat \<Rightarrow> ether_addr \<Rightarrow> mem" where
  "st_mac m a (Ether_Addr b0 b1 b2 b3 b4 b5) =
     m(a := b0, a + 1 := b1, a + 2 := b2, a + 3 := b3, a + 4 := b4, a + 5 := b5)"

text \<open>Splitting a word into halves and joining them again.\<close>

lemma word_cat_halves:
  fixes v :: "'c::len word"
  assumes "LENGTH('c) = LENGTH('a) + LENGTH('b)"
  shows "(word_cat (ucast (drop_bit (LENGTH('b)) v) :: 'a::len word) (ucast v :: 'b::len word) :: 'c word) = v"
  by (rule bit_word_eqI) (use assms in \<open>auto simp: word_size bit_word_cat_iff bit_ucast_iff bit_drop_bit_eq\<close>)

lemma ucast_word_cat_low:
  fixes x :: "'a::len word" and y :: "'b::len word"
  assumes "LENGTH('c::len) = LENGTH('a) + LENGTH('b)"
  shows "ucast (word_cat x y :: 'c word) = y"
  by (rule bit_word_eqI) (use assms in \<open>auto simp: word_size bit_word_cat_iff bit_ucast_iff\<close>)

lemma ucast_word_cat_high:
  fixes x :: "'a::len word" and y :: "'b::len word"
  assumes "LENGTH('c::len) = LENGTH('a) + LENGTH('b)"
  shows "ucast (drop_bit (LENGTH('b)) (word_cat x y :: 'c word)) = x"
  by (rule bit_word_eqI) (use assms in \<open>auto simp: word_size bit_word_cat_iff bit_ucast_iff bit_drop_bit_eq\<close>)

lemmas word_halves [cell_simps] =
  word_cat_halves [where 'c = 16 and 'a = 8 and 'b = 8, simplified]
  word_cat_halves [where 'c = 32 and 'a = 16 and 'b = 16, simplified]
  word_cat_halves [where 'c = 64 and 'a = 32 and 'b = 32, simplified]

lemmas word_joined [cell_simps] =
  ucast_word_cat_low [where 'c = 16 and 'a = 8 and 'b = 8, simplified]
  ucast_word_cat_low [where 'c = 32 and 'a = 16 and 'b = 16, simplified]
  ucast_word_cat_low [where 'c = 64 and 'a = 32 and 'b = 32, simplified]
  ucast_word_cat_high [where 'c = 16 and 'a = 8 and 'b = 8, simplified]
  ucast_word_cat_high [where 'c = 32 and 'a = 16 and 'b = 16, simplified]
  ucast_word_cat_high [where 'c = 64 and 'a = 32 and 'b = 32, simplified]

interpretation c8: mem_cell ld8 st8 1
  by unfold_locales (auto simp: ld8_def st8_def)

interpretation c16: mem_cell ld16 st16 2
proof unfold_locales
  fix m m' :: mem and a b i :: nat
  assume "a \<le> i" and "i < a + 2"
  then have "i = a \<or> i = a + 1" by linarith
  then show "st16 m a (ld16 m' b) i = m' (b + (i - a))"
    by (auto simp: ld16_def st16_def word_joined)
qed (auto simp: ld16_def st16_def word_halves word_joined)

interpretation c16x16: mem_cells ld16 st16 2 ld16 st16 2
  by unfold_locales

interpretation c32: mem_cell ld32 st32 4
proof unfold_locales
  fix m :: mem and a i v
  show "ld32 (st32 m a v) a = v"
    by (simp add: ld32_def st32_def c16.ld_st c16x16.ld_st_disjoint word_halves)
  show "st32 m a (ld32 m' b) i = m' (b + (i - a))" if "a \<le> i" "i < a + 4" for m' b
    using that by (cases "i < a + 2") (auto simp: ld32_def st32_def word_joined c16.st_ld_byte intro!: arg_cong [where f = m'])
  show "st32 m a v i = m i" if "i < a \<or> a + 4 \<le> i"
    using that by (auto simp: st32_def c16.st_frame)
next
  fix m m' :: mem and a
  assume "\<And>i. a \<le> i \<Longrightarrow> i < a + 4 \<Longrightarrow> m i = m' i"
  then show "ld32 m a = ld32 m' a"
    by (simp add: ld32_def ld16_def)
qed

interpretation c32x32: mem_cells ld32 st32 4 ld32 st32 4
  by unfold_locales

interpretation c64: mem_cell ld64 st64 8
proof unfold_locales
  fix m :: mem and a i v
  show "ld64 (st64 m a v) a = v"
    by (simp add: ld64_def st64_def c32.ld_st c32x32.ld_st_disjoint word_halves)
  show "st64 m a (ld64 m' b) i = m' (b + (i - a))" if "a \<le> i" "i < a + 8" for m' b
    using that by (cases "i < a + 4") (auto simp: ld64_def st64_def word_joined c32.st_ld_byte intro!: arg_cong [where f = m'])
  show "st64 m a v i = m i" if "i < a \<or> a + 8 \<le> i"
    using that by (auto simp: st64_def c32.st_frame)
next
  fix m m' :: mem and a
  assume "\<And>i. a \<le> i \<Longrightarrow> i < a + 8 \<Longrightarrow> m i = m' i"
  then show "ld64 m a = ld64 m' a"
    by (simp add: ld64_def ld32_def ld16_def)
qed

interpretation cmac: mem_cell ld_mac st_mac 6
proof unfold_locales
  fix m :: mem and a i and v :: ether_addr
  show "ld_mac (st_mac m a v) a = v"
    by (cases v) (simp add: ld_mac_def)
  show "st_mac m a v i = m i" if "i < a \<or> a + 6 \<le> i"
    using that by (cases v) auto
  show "st_mac m a (ld_mac m' b) i = m' (b + (i - a))" if "a \<le> i" "i < a + 6" for m' b
  proof -
    from that have "i = a \<or> i = a + 1 \<or> i = a + 2 \<or> i = a + 3 \<or> i = a + 4 \<or> i = a + 5" by linarith
    then show ?thesis by (auto simp: ld_mac_def)
  qed
next
  fix m m' :: mem and a
  assume "\<And>i. a \<le> i \<Longrightarrow> i < a + 6 \<Longrightarrow> m i = m' i"
  then show "ld_mac m a = ld_mac m' a"
    by (simp add: ld_mac_def)
qed

declare st_mac.simps [simp del]

lemmas ld_after_st [cell_simps] =
  c8.ld_st c16.ld_st c32.ld_st c64.ld_st cmac.ld_st

text \<open>Every pair of cell types: a load past a store to disjoint bytes.\<close>

lemmas ld_past_st [cell_simps] =
  mem_cells.ld_st_disjoint [OF mem_cells.intro, OF c8.mem_cell_axioms c8.mem_cell_axioms]
  mem_cells.ld_st_disjoint [OF mem_cells.intro, OF c8.mem_cell_axioms c16.mem_cell_axioms]
  mem_cells.ld_st_disjoint [OF mem_cells.intro, OF c8.mem_cell_axioms c32.mem_cell_axioms]
  mem_cells.ld_st_disjoint [OF mem_cells.intro, OF c8.mem_cell_axioms c64.mem_cell_axioms]
  mem_cells.ld_st_disjoint [OF mem_cells.intro, OF c8.mem_cell_axioms cmac.mem_cell_axioms]
  mem_cells.ld_st_disjoint [OF mem_cells.intro, OF c16.mem_cell_axioms c8.mem_cell_axioms]
  mem_cells.ld_st_disjoint [OF mem_cells.intro, OF c16.mem_cell_axioms c16.mem_cell_axioms]
  mem_cells.ld_st_disjoint [OF mem_cells.intro, OF c16.mem_cell_axioms c32.mem_cell_axioms]
  mem_cells.ld_st_disjoint [OF mem_cells.intro, OF c16.mem_cell_axioms c64.mem_cell_axioms]
  mem_cells.ld_st_disjoint [OF mem_cells.intro, OF c16.mem_cell_axioms cmac.mem_cell_axioms]
  mem_cells.ld_st_disjoint [OF mem_cells.intro, OF c32.mem_cell_axioms c8.mem_cell_axioms]
  mem_cells.ld_st_disjoint [OF mem_cells.intro, OF c32.mem_cell_axioms c16.mem_cell_axioms]
  mem_cells.ld_st_disjoint [OF mem_cells.intro, OF c32.mem_cell_axioms c32.mem_cell_axioms]
  mem_cells.ld_st_disjoint [OF mem_cells.intro, OF c32.mem_cell_axioms c64.mem_cell_axioms]
  mem_cells.ld_st_disjoint [OF mem_cells.intro, OF c32.mem_cell_axioms cmac.mem_cell_axioms]
  mem_cells.ld_st_disjoint [OF mem_cells.intro, OF c64.mem_cell_axioms c8.mem_cell_axioms]
  mem_cells.ld_st_disjoint [OF mem_cells.intro, OF c64.mem_cell_axioms c16.mem_cell_axioms]
  mem_cells.ld_st_disjoint [OF mem_cells.intro, OF c64.mem_cell_axioms c32.mem_cell_axioms]
  mem_cells.ld_st_disjoint [OF mem_cells.intro, OF c64.mem_cell_axioms c64.mem_cell_axioms]
  mem_cells.ld_st_disjoint [OF mem_cells.intro, OF c64.mem_cell_axioms cmac.mem_cell_axioms]
  mem_cells.ld_st_disjoint [OF mem_cells.intro, OF cmac.mem_cell_axioms c8.mem_cell_axioms]
  mem_cells.ld_st_disjoint [OF mem_cells.intro, OF cmac.mem_cell_axioms c16.mem_cell_axioms]
  mem_cells.ld_st_disjoint [OF mem_cells.intro, OF cmac.mem_cell_axioms c32.mem_cell_axioms]
  mem_cells.ld_st_disjoint [OF mem_cells.intro, OF cmac.mem_cell_axioms c64.mem_cell_axioms]
  mem_cells.ld_st_disjoint [OF mem_cells.intro, OF cmac.mem_cell_axioms cmac.mem_cell_axioms]

lemmas ld_past_copy [cell_simps] =
  c8.ld_past_bytes c16.ld_past_bytes c32.ld_past_bytes c64.ld_past_bytes cmac.ld_past_bytes
  c8.ld_past_fill c16.ld_past_fill c32.ld_past_fill c64.ld_past_fill cmac.ld_past_fill
  st_bytes_frame st_fill_frame st_bytes_at

lemmas byte_past_st [cell_simps] =
  c8.st_frame c16.st_frame c32.st_frame c64.st_frame cmac.st_frame

section \<open>Ranges of the machine integers\<close>

lemma unat_bound [simp]:
  "unat (a :: u8) < 256" "unat (b :: u16) < 65536" "unat (c :: u32) < 4294967296"
  "unat (d :: u64) < 18446744073709551616"
  by (rule order.strict_trans2 [OF unsigned_less], simp)+

lemma unat_word_of_int_u32: "0 \<le> x \<Longrightarrow> x < 2 ^ 32 \<Longrightarrow> int (unat (word_of_int x :: u32)) = x"
  by (simp add: uint_word_of_int_eq take_bit_int_eq_self)

lemma sint_small_u32:
  assumes "unat (w :: u32) < 2 ^ 31"
  shows "sint w = int (unat w)"
proof -
  have "uint w < 2 ^ 31" using assms by (metis of_nat_less_iff of_nat_numeral of_nat_power of_nat_unat unsigned_of_nat uint_nat)
  moreover have "- (2 ^ 31) \<le> uint w" by (rule order.trans [OF _ uint_ge_0]) simp
  ultimately have "signed_take_bit 31 (uint w) = uint w" by (rule signed_take_bit_int_eq_self [rotated])
  then show ?thesis by (simp add: sint_uint)
qed

section \<open>Loops over an array that may fail\<close>

text \<open>A \<open>for\<close> loop whose body may stop the program: it runs from left to right and stops at
  the first error.\<close>

fun fold_res :: "('a \<Rightarrow> 's \<Rightarrow> 's res) \<Rightarrow> 'a list \<Rightarrow> 's \<Rightarrow> 's res" where
  "fold_res f [] s = Inr s"
| "fold_res f (x # xs) s = (case f x s of Inl e \<Rightarrow> Inl e | Inr s' \<Rightarrow> fold_res f xs s')"

lemma fold_res_append:
  "fold_res f (xs @ ys) s = (case fold_res f xs s of Inl e \<Rightarrow> Inl e | Inr s' \<Rightarrow> fold_res f ys s')"
  by (induction xs arbitrary: s) (auto split: sum.split)

lemma fold_res_invariant:
  assumes "fold_res f xs s = Inr s'" and "P s"
    and "\<And>x s s'. x \<in> set xs \<Longrightarrow> P s \<Longrightarrow> f x s = Inr s' \<Longrightarrow> P s'"
  shows "P s'"
  using assms
proof (induction xs arbitrary: s)
  case Nil
  then show ?case by simp
next
  case (Cons x xs)
  from Cons.prems(1) obtain s1 where s1: "f x s = Inr s1" "fold_res f xs s1 = Inr s'"
    by (auto split: sum.splits)
  have "P s1" using Cons.prems(2,3) s1(1) by (meson list.set_intros(1))
  with s1(2) show ?case by (rule Cons.IH) (use Cons.prems(3) in \<open>meson list.set_intros(2)\<close>)
qed

lemma fold_res_ok:
  assumes "P s" and "\<And>x s. x \<in> set xs \<Longrightarrow> P s \<Longrightarrow> \<exists>s'. f x s = Inr s' \<and> P s'"
  shows "\<exists>s'. fold_res f xs s = Inr s' \<and> P s'"
  using assms
proof (induction xs arbitrary: s)
  case Nil
  then show ?case by simp
next
  case (Cons x xs)
  obtain s1 where s1: "f x s = Inr s1" "P s1"
    using Cons.prems(1) Cons.prems(2) [of x s] by auto
  have "\<exists>s'. fold_res f xs s1 = Inr s' \<and> P s'"
    using s1(2) Cons.prems(2) by (intro Cons.IH) auto
  with s1(1) show ?case by simp
qed

text \<open>A loop that fills an array with one computed value per step, and stops at the first error.\<close>

fun map_res :: "('a \<Rightarrow> 'b res) \<Rightarrow> 'a list \<Rightarrow> 'b list res" where
  "map_res f [] = Inr []"
| "map_res f (x # xs) =
     (case f x of
        Inl e \<Rightarrow> Inl e
      | Inr y \<Rightarrow> (case map_res f xs of Inl e \<Rightarrow> Inl e | Inr ys \<Rightarrow> Inr (y # ys)))"

lemma map_res_eq_Inr: "map_res f xs = Inr ys \<longleftrightarrow> list_all2 (\<lambda>x y. f x = Inr y) xs ys"
proof (induction xs arbitrary: ys)
  case (Cons x xs)
  show ?case by (auto simp: list_all2_Cons1 Cons.IH [symmetric] split: sum.splits)
qed auto

end
