(* ===== verification/Dpdk.thy ===== *)
theory Dpdk
  imports Prelude
begin

text \<open>
  The boundary to DPDK. DPDK is not part of the repository, so every DPDK function the sources
  call is a field of the record \<open>dpdk\<close>, an argument of the definitions that call it. A call
  that touches the outside world (the timer, a queue of the device, the mbuf pool) answers as a
  function of the calls made before it, the \<open>trace\<close>, and is itself recorded there: a theorem
  for all \<open>dpdk\<close> is a theorem for every device, clock and pool. What the sources rely on is
  stated as the predicates \<open>byteorder_ok\<close>, \<open>ether_ok\<close>, \<open>append_ok\<close>, \<open>rx_ok\<close>, \<open>tx_ok\<close> and
  \<open>alloc_ok\<close>, which quote the documented behaviour of the API. \<open>sim\<close> is one concrete
  device on which they hold.

  The layouts of the protocol headers are the wire formats of IEEE 802.3 and 802.1Q, RFC 791,
  RFC 768, RFC 793 and RFC 826, which DPDK's packed header structs reproduce.
\<close>

section \<open>Packet buffers and the trace of calls\<close>

datatype tx_flag = F_TX_IP_CKSUM | F_TX_IPV4 | F_TX_UDP_CKSUM | F_TX_TCP_CKSUM

text \<open>\<open>struct rte_mbuf\<close>, as far as the sources use it. \<open>buf_addr\<close> tells buffers apart: it is
  the pointer the C code passes around.\<close>

record mbuf =
  buf_addr :: nat
  pkt :: mem
  data_len :: nat
  l2_len :: nat
  l3_len :: nat
  ol_flags :: "tx_flag set"

type_synonym mempool = nat

datatype event =
    Timer_Read u64
  | Tsc_Read u64
  | Sleep nat
  | Rx_Burst u16 u16 "mbuf list"
  | Tx_Burst u16 u16 "mbuf list" nat
  | Mbuf_Free mbuf
  | Mbuf_Alloc "mbuf list"
  | Alloc_Failed nat

text \<open>The calls made so far, the latest first.\<close>

type_synonym trace = "event list"

record dpdk =
  rte_cpu_to_be_16 :: "u16 \<Rightarrow> u16"
  rte_be_to_cpu_16 :: "u16 \<Rightarrow> u16"
  rte_cpu_to_be_32 :: "u32 \<Rightarrow> u32"
  rte_be_to_cpu_32 :: "u32 \<Rightarrow> u32"
  rte_is_same_ether_addr :: "ether_addr \<Rightarrow> ether_addr \<Rightarrow> bool"
  rte_is_broadcast_ether_addr :: "ether_addr \<Rightarrow> bool"
  data_room :: "nat \<Rightarrow> nat"
  rte_pktmbuf_append :: "mbuf \<Rightarrow> u16 \<Rightarrow> nat option \<times> mbuf"
  rte_ipv4_cksum :: "mem \<Rightarrow> nat \<Rightarrow> u16"
  rte_ipv4_udptcp_cksum :: "mem \<Rightarrow> nat \<Rightarrow> nat \<Rightarrow> u16"
  rte_get_timer_hz :: u64
  rte_get_timer_cycles :: "trace \<Rightarrow> u64"
  rte_get_tsc_cycles :: "trace \<Rightarrow> u64"
  rte_eth_rx_burst :: "trace \<Rightarrow> u16 \<Rightarrow> u16 \<Rightarrow> nat \<Rightarrow> mbuf list"
  rte_eth_tx_burst :: "trace \<Rightarrow> u16 \<Rightarrow> u16 \<Rightarrow> mbuf list \<Rightarrow> nat"
  rte_pktmbuf_alloc :: "trace \<Rightarrow> mempool \<Rightarrow> mbuf option"
  rte_pktmbuf_alloc_bulk :: "trace \<Rightarrow> mempool \<Rightarrow> nat \<Rightarrow> mbuf list option"
  rte_eth_macaddr_get :: "u16 \<Rightarrow> ether_addr"

section \<open>The calls, recorded in the trace\<close>

definition timer_cycles :: "dpdk \<Rightarrow> trace \<Rightarrow> u64 \<times> trace" where
  "timer_cycles d t = (let c = rte_get_timer_cycles d t in (c, Timer_Read c # t))"

definition tsc_cycles :: "dpdk \<Rightarrow> trace \<Rightarrow> u64 \<times> trace" where
  "tsc_cycles d t = (let c = rte_get_tsc_cycles d t in (c, Tsc_Read c # t))"

definition rx_burst :: "dpdk \<Rightarrow> u16 \<Rightarrow> u16 \<Rightarrow> nat \<Rightarrow> trace \<Rightarrow> mbuf list \<times> trace" where
  "rx_burst d port q n t =
     (let ms = rte_eth_rx_burst d t port q n in (ms, Rx_Burst port q ms # t))"

definition tx_burst :: "dpdk \<Rightarrow> u16 \<Rightarrow> u16 \<Rightarrow> mbuf list \<Rightarrow> trace \<Rightarrow> nat \<times> trace" where
  "tx_burst d port q ms t =
     (let n = rte_eth_tx_burst d t port q ms in (n, Tx_Burst port q ms n # t))"

definition pktmbuf_free :: "mbuf \<Rightarrow> trace \<Rightarrow> trace" where
  "pktmbuf_free m t = Mbuf_Free m # t"

definition pktmbuf_alloc :: "dpdk \<Rightarrow> mempool \<Rightarrow> trace \<Rightarrow> mbuf option \<times> trace" where
  "pktmbuf_alloc d pool t =
     (case rte_pktmbuf_alloc d t pool of
        None \<Rightarrow> (None, Alloc_Failed 1 # t)
      | Some m \<Rightarrow> (Some m, Mbuf_Alloc [m] # t))"

definition pktmbuf_alloc_bulk :: "dpdk \<Rightarrow> mempool \<Rightarrow> nat \<Rightarrow> trace \<Rightarrow> mbuf list option \<times> trace" where
  "pktmbuf_alloc_bulk d pool n t =
     (case rte_pktmbuf_alloc_bulk d t pool n of
        None \<Rightarrow> (None, Alloc_Failed n # t)
      | Some ms \<Rightarrow> (Some ms, Mbuf_Alloc ms # t))"

definition sleep_s :: "nat \<Rightarrow> trace \<Rightarrow> trace" where
  "sleep_s n t = Sleep n # t"

section \<open>Documented behaviour\<close>

text \<open>Conversions to and from network byte order are inverse to each other.\<close>

definition byteorder_ok :: "dpdk \<Rightarrow> bool" where
  "byteorder_ok d \<longleftrightarrow>
     (\<forall>x. rte_be_to_cpu_16 d (rte_cpu_to_be_16 d x) = x) \<and>
     (\<forall>x. rte_cpu_to_be_16 d (rte_be_to_cpu_16 d x) = x) \<and>
     (\<forall>x. rte_be_to_cpu_32 d (rte_cpu_to_be_32 d x) = x) \<and>
     (\<forall>x. rte_cpu_to_be_32 d (rte_be_to_cpu_32 d x) = x)"

definition broadcast_addr :: ether_addr where
  "broadcast_addr = Ether_Addr 0xFF 0xFF 0xFF 0xFF 0xFF 0xFF"

text \<open>The address predicates compare all six bytes.\<close>

definition ether_ok :: "dpdk \<Rightarrow> bool" where
  "ether_ok d \<longleftrightarrow>
     (\<forall>a b. rte_is_same_ether_addr d a b = (a = b)) \<and>
     (\<forall>a. rte_is_broadcast_ether_addr d a = (a = broadcast_addr))"

text \<open>\<open>rte_pktmbuf_append\<close>: the start of the appended bytes, or a null pointer with the
  buffer unchanged when the tailroom does not suffice. \<open>data_room\<close> is the tailroom of the empty
  buffer at an address.\<close>

definition append_ok :: "dpdk \<Rightarrow> bool" where
  "append_ok d \<longleftrightarrow>
     (\<forall>m n. rte_pktmbuf_append d m n =
        (if data_len m + unat n \<le> data_room d (buf_addr m)
         then (Some (data_len m), m\<lparr>data_len := data_len m + unat n\<rparr>)
         else (None, m)))"

text \<open>\<open>rte_eth_rx_burst\<close> retrieves at most the number of packets asked for, \<open>rte_eth_tx_burst\<close>
  accepts at most the number of packets offered.\<close>

definition rx_ok :: "dpdk \<Rightarrow> bool" where
  "rx_ok d \<longleftrightarrow> (\<forall>t port q n. length (rte_eth_rx_burst d t port q n) \<le> n)"

definition tx_ok :: "dpdk \<Rightarrow> bool" where
  "tx_ok d \<longleftrightarrow> (\<forall>t port q ms. rte_eth_tx_burst d t port q ms \<le> length ms)"

text \<open>A freshly allocated mbuf is empty; a bulk allocation yields as many as asked for.\<close>

definition alloc_ok :: "dpdk \<Rightarrow> bool" where
  "alloc_ok d \<longleftrightarrow>
     (\<forall>t pool m. rte_pktmbuf_alloc d t pool = Some m \<longrightarrow> data_len m = 0) \<and>
     (\<forall>t pool n ms. rte_pktmbuf_alloc_bulk d t pool n = Some ms \<longrightarrow>
        length ms = n \<and> list_all (\<lambda>m. data_len m = 0) ms)"

lemma byteorder_okD [simp]:
  assumes "byteorder_ok d"
  shows "rte_be_to_cpu_16 d (rte_cpu_to_be_16 d x) = x"
    and "rte_cpu_to_be_16 d (rte_be_to_cpu_16 d x) = x"
    and "rte_be_to_cpu_32 d (rte_cpu_to_be_32 d y) = y"
    and "rte_cpu_to_be_32 d (rte_be_to_cpu_32 d y) = y"
  using assms by (simp_all add: byteorder_ok_def)

lemma cpu_to_be_16_inject [simp]:
  assumes "byteorder_ok d"
  shows "rte_cpu_to_be_16 d x = rte_cpu_to_be_16 d y \<longleftrightarrow> x = y"
  using byteorder_okD(1) [OF assms] by metis

lemma cpu_to_be_32_inject [simp]:
  assumes "byteorder_ok d"
  shows "rte_cpu_to_be_32 d x = rte_cpu_to_be_32 d y \<longleftrightarrow> x = y"
  using byteorder_okD(3) [OF assms] by metis

lemma be_to_cpu_32_eq_iff:
  assumes "byteorder_ok d"
  shows "rte_be_to_cpu_32 d x = y \<longleftrightarrow> x = rte_cpu_to_be_32 d y"
  using byteorder_okD(3,4) [OF assms] by metis

lemma ether_okD [simp]:
  assumes "ether_ok d"
  shows "rte_is_same_ether_addr d a b \<longleftrightarrow> a = b"
    and "rte_is_broadcast_ether_addr d a \<longleftrightarrow> a = broadcast_addr"
  using assms by (simp_all add: ether_ok_def)

lemma tx_okD: "tx_ok d \<Longrightarrow> rte_eth_tx_burst d t port q ms \<le> length ms"
  by (simp add: tx_ok_def)

lemma rx_okD: "rx_ok d \<Longrightarrow> length (rte_eth_rx_burst d t port q n) \<le> n"
  by (simp add: rx_ok_def)

section \<open>Accounting of packet buffers\<close>

text \<open>
  How many times a buffer is owned by the program after a trace: received and allocated buffers
  enter, freed buffers and buffers accepted for transmission leave. A piece of code that leaves
  \<open>outstanding\<close> unchanged has freed or sent everything it took, exactly once.
\<close>

definition held :: "mbuf list \<Rightarrow> nat \<Rightarrow> int" where
  "held ms a = int (count_list (map buf_addr ms) a)"

primrec event_delta :: "event \<Rightarrow> nat \<Rightarrow> int" where
  "event_delta (Timer_Read c) a = 0"
| "event_delta (Tsc_Read c) a = 0"
| "event_delta (Sleep n) a = 0"
| "event_delta (Rx_Burst p q ms) a = held ms a"
| "event_delta (Tx_Burst p q ms n) a = - held (take n ms) a"
| "event_delta (Mbuf_Free m) a = - held [m] a"
| "event_delta (Mbuf_Alloc ms) a = held ms a"
| "event_delta (Alloc_Failed n) a = 0"

primrec outstanding :: "trace \<Rightarrow> nat \<Rightarrow> int" where
  "outstanding [] a = 0"
| "outstanding (e # t) a = event_delta e a + outstanding t a"

lemma held_simps [simp]:
  "held [] a = 0"
  "held (m # ms) a = (if buf_addr m = a then 1 else 0) + held ms a"
  "held (ms @ ns) a = held ms a + held ns a"
  by (auto simp: held_def)

lemma held_take_drop: "held (take n ms) a + held (drop n ms) a = held ms a"
  by (metis append_take_drop_id held_simps(3))

lemma held_cong: "map buf_addr ms = map buf_addr ns \<Longrightarrow> held ms = held ns"
  by (simp add: held_def fun_eq_iff)

lemmas trace_defs [trace_simps] =
  timer_cycles_def tsc_cycles_def rx_burst_def tx_burst_def pktmbuf_free_def pktmbuf_alloc_def
  pktmbuf_alloc_bulk_def sleep_s_def Let_def

text \<open>
  The contract of a handler that is given received buffers one by one: every buffer is freed,
  handed back to the device, or kept in the handler's own list. Any burst then keeps the books.
\<close>

locale rx_handler =
  fixes handle :: "mbuf \<Rightarrow> 's \<times> trace \<Rightarrow> ('s \<times> trace) res"
    and kept :: "'s \<Rightarrow> mbuf list"
  assumes handle_balance:
    "handle m (s, t) = Inr (s', t') \<Longrightarrow>
       outstanding t' a - held (kept s') a = outstanding t a - held (kept s) a - held [m] a"
begin

lemma burst_balance:
  "fold_res handle ms (s, t) = Inr (s', t') \<Longrightarrow>
     outstanding t' a - held (kept s') a = outstanding t a - held (kept s) a - held ms a"
proof (induction ms arbitrary: s t)
  case Nil
  then show ?case by simp
next
  case (Cons m ms)
  from Cons.prems obtain s1 t1 where step: "handle m (s, t) = Inr (s1, t1)"
    and rest: "fold_res handle ms (s1, t1) = Inr (s', t')"
    by (auto split: sum.splits)
  show ?case
    using Cons.IH [OF rest] handle_balance [OF step, of a] by simp
qed

text \<open>Polling a queue and handling the burst acquires exactly what is kept.\<close>

lemma poll_balance:
  assumes "fold_res handle ms (s, Rx_Burst p q ms # t) = Inr (s', t')"
  shows "outstanding t' a - held (kept s') a = outstanding t a - held (kept s) a"
  using burst_balance [OF assms, of a] by simp

end

section \<open>The loop of a worker\<close>

text \<open>
  The workers share the shape of their main loop: while a flag that other threads may clear is
  set, do one round, which may fail, not return, or ask to leave the loop.
\<close>

partial_function (option) worker_loop ::
  "('s \<Rightarrow> trace \<Rightarrow> (bool \<times> 's \<times> trace) res option) \<Rightarrow> (trace \<Rightarrow> bool) \<Rightarrow> 's \<Rightarrow> trace \<Rightarrow> ('s \<times> trace) res option" where
  "worker_loop iter running s t =
     (if running t
      then (case iter s t of
              None \<Rightarrow> None
            | Some (Inl e) \<Rightarrow> Some (Inl e)
            | Some (Inr (run, s, t)) \<Rightarrow> if run then worker_loop iter running s t else Some (Inr (s, t)))
      else Some (Inr (s, t)))"

text \<open>One round after which the loop goes on, and a run of the loop to its end.\<close>

inductive worker_step :: "('s \<Rightarrow> trace \<Rightarrow> (bool \<times> 's \<times> trace) res option) \<Rightarrow> (trace \<Rightarrow> bool) \<Rightarrow> 's \<times> trace \<Rightarrow> 's \<times> trace \<Rightarrow> bool"
  for iter running where
  "running t \<Longrightarrow> iter s t = Some (Inr (True, s', t')) \<Longrightarrow> worker_step iter running (s, t) (s', t')"

inductive worker_result :: "('s \<Rightarrow> trace \<Rightarrow> (bool \<times> 's \<times> trace) res option) \<Rightarrow> (trace \<Rightarrow> bool) \<Rightarrow> 's \<times> trace \<Rightarrow> 's \<times> trace \<Rightarrow> bool"
  for iter running where
  told_to_stop: "\<not> running t \<Longrightarrow> worker_result iter running (s, t) (s, t)"
| last_round: "running t \<Longrightarrow> iter s t = Some (Inr (False, s', t')) \<Longrightarrow> worker_result iter running (s, t) (s', t')"
| next_round: "worker_step iter running x y \<Longrightarrow> worker_result iter running y z \<Longrightarrow> worker_result iter running x z"

inductive_cases worker_stepE: "worker_step iter running (s, t) (s', t')"

lemma worker_loop_returns:
  assumes "worker_loop iter running s t = Some (Inr r)"
  shows "worker_result iter running (s, t) r"
proof -
  have "Inr r = (Inr r' :: _ res) \<longrightarrow> worker_result iter running (s, t) r'" for r'
  proof (rule worker_loop.raw_induct [OF _ assms], rule impI)
    fix f iter running s t y
    assume IH: "\<And>iter running s t y. f iter running s t = Some y \<Longrightarrow>
        y = Inr r' \<longrightarrow> worker_result iter running (s, t) r'"
      and eq: "(if running t
        then (case iter s t of
                None \<Rightarrow> None
              | Some (Inl e) \<Rightarrow> Some (Inl e)
              | Some (Inr (run, s, t)) \<Rightarrow> if run then f iter running s t else Some (Inr (s, t)))
        else Some (Inr (s, t))) = Some y" and y: "y = Inr r'"
    show "worker_result iter running (s, t) r'"
    proof (cases "running t")
      case True
      with eq y obtain run s2 t2 where iter: "iter s t = Some (Inr (run, s2, t2))"
        by (auto split: option.splits sum.splits)
      show ?thesis
      proof (cases run)
        case run: True
        have "worker_result iter running (s2, t2) r'" using IH eq y True iter run by simp
        moreover have "worker_step iter running (s, t) (s2, t2)"
          using True iter run by (simp add: worker_step.intros)
        ultimately show ?thesis by (rule next_round [rotated])
      next
        case False
        then have "r' = (s2, t2)" using eq y True iter by simp
        with True iter False show ?thesis by (simp add: last_round)
      qed
    next
      case False
      with eq y have "r' = (s, t)" by simp
      with False show ?thesis by (simp add: told_to_stop)
    qed
  qed
  then show ?thesis by simp
qed

lemma worker_result_returns:
  "worker_result iter running x r \<Longrightarrow> worker_loop iter running (fst x) (snd x) = Some (Inr r)"
  by (induction rule: worker_result.induct) (auto elim!: worker_step.cases, (subst worker_loop.simps, simp)+)

lemma worker_loop_iff: "worker_loop iter running s t = Some (Inr r) \<longleftrightarrow> worker_result iter running (s, t) r"
  using worker_loop_returns [of iter running s t r] worker_result_returns [of iter running "(s, t)" r] by auto

text \<open>Whatever every round keeps, the loop keeps.\<close>

lemma worker_loop_invariant:
  assumes "worker_loop iter running s t = Some (Inr (s', t'))" and "P s t"
    and round: "\<And>s t run s' t'. iter s t = Some (Inr (run, s', t')) \<Longrightarrow> P s t \<Longrightarrow> P s' t'"
  shows "P s' t'"
proof -
  have "case_prod P x \<Longrightarrow> case_prod P y" if "worker_result iter running x y" for x y
    using that by (induction rule: worker_result.induct) (auto elim!: worker_stepE dest: round)
  from this [OF worker_loop_returns [OF assms(1)]] assms(2) show ?thesis by simp
qed

section \<open>A concrete device\<close>

text \<open>
  One instance of the interface on a little-endian host with DPDK's default buffers (2048 bytes
  of data room of which 128 are headroom). What arrives, what the device accepts, the clock and
  the pool are still arguments.
\<close>

definition bswap16 :: "u16 \<Rightarrow> u16" where
  "bswap16 v = word_cat (ucast v :: u8) (ucast (drop_bit 8 v) :: u8)"

definition bswap32 :: "u32 \<Rightarrow> u32" where
  "bswap32 v = word_cat (bswap16 (ucast v)) (bswap16 (ucast (drop_bit 16 v)))"

lemma bswap16_bswap16 [simp]: "bswap16 (bswap16 v) = v"
  by (simp add: bswap16_def cell_simps)

lemma bswap32_bswap32 [simp]: "bswap32 (bswap32 v) = v"
  by (simp add: bswap32_def cell_simps)

definition sim_append :: "mbuf \<Rightarrow> u16 \<Rightarrow> nat option \<times> mbuf" where
  "sim_append m n =
     (if data_len m + unat n \<le> 1920
      then (Some (data_len m), m\<lparr>data_len := data_len m + unat n\<rparr>) else (None, m))"

definition empty_mbuf :: "nat \<Rightarrow> mbuf" where
  "empty_mbuf a = \<lparr>buf_addr = a, pkt = (\<lambda>_. 0), data_len = 0, l2_len = 0, l3_len = 0, ol_flags = {}\<rparr>"

definition sim ::
  "(trace \<Rightarrow> u64) \<Rightarrow> (trace \<Rightarrow> u16 \<Rightarrow> mbuf list) \<Rightarrow> (trace \<Rightarrow> nat) \<Rightarrow> ether_addr \<Rightarrow> dpdk" where
  "sim clk rx tx mac =
     \<lparr>rte_cpu_to_be_16 = bswap16, rte_be_to_cpu_16 = bswap16,
      rte_cpu_to_be_32 = bswap32, rte_be_to_cpu_32 = bswap32,
      rte_is_same_ether_addr = (=), rte_is_broadcast_ether_addr = (\<lambda>a. a = broadcast_addr),
      data_room = (\<lambda>_. 1920), rte_pktmbuf_append = sim_append,
      rte_ipv4_cksum = (\<lambda>_ _. 0), rte_ipv4_udptcp_cksum = (\<lambda>_ _ _. 0),
      rte_get_timer_hz = 1000, rte_get_timer_cycles = clk, rte_get_tsc_cycles = clk,
      rte_eth_rx_burst = (\<lambda>t port q n. take n (rx t q)),
      rte_eth_tx_burst = (\<lambda>t port q ms. min (tx t) (length ms)),
      rte_pktmbuf_alloc = (\<lambda>t pool. Some (empty_mbuf 0)),
      rte_pktmbuf_alloc_bulk = (\<lambda>t pool n. Some (map empty_mbuf [0..<n])),
      rte_eth_macaddr_get = (\<lambda>port. mac)\<rparr>"

lemma sim_ok [simp]:
  "byteorder_ok (sim clk rx tx mac)"
  "ether_ok (sim clk rx tx mac)"
  "append_ok (sim clk rx tx mac)"
  "rx_ok (sim clk rx tx mac)"
  "tx_ok (sim clk rx tx mac)"
  "alloc_ok (sim clk rx tx mac)"
  by (auto simp: sim_def byteorder_ok_def ether_ok_def append_ok_def rx_ok_def tx_ok_def alloc_ok_def
      sim_append_def empty_mbuf_def list_all_iff)

end
