(* ===== verification/Headers.thy ===== *)
theory Headers
  imports Dpdk
begin

text \<open>
  Field offsets and constants of the protocol headers the sources cast packet data to, and the
  step all packet builders share: appending room to a buffer and writing through the pointer
  that \<open>rte_pktmbuf_append\<close> returns, which is a null pointer when the buffer is full.
\<close>

section \<open>Field offsets\<close>

abbreviation (input) "ETHER_HDR_LEN \<equiv> 14 :: nat"
abbreviation (input) "ETH_DST \<equiv> 0 :: nat"
abbreviation (input) "ETH_SRC \<equiv> 6 :: nat"
abbreviation (input) "ETH_TYPE \<equiv> 12 :: nat"

abbreviation (input) "VLAN_HDR_LEN \<equiv> 4 :: nat"
abbreviation (input) "VLAN_TCI \<equiv> 0 :: nat"
abbreviation (input) "VLAN_PROTO \<equiv> 2 :: nat"

abbreviation (input) "IPV4_HDR_LEN \<equiv> 20 :: nat"
abbreviation (input) "IP_VERSION_IHL \<equiv> 0 :: nat"
abbreviation (input) "IP_TOS \<equiv> 1 :: nat"
abbreviation (input) "IP_TOTAL_LENGTH \<equiv> 2 :: nat"
abbreviation (input) "IP_PACKET_ID \<equiv> 4 :: nat"
abbreviation (input) "IP_FRAGMENT_OFFSET \<equiv> 6 :: nat"
abbreviation (input) "IP_TTL \<equiv> 8 :: nat"
abbreviation (input) "IP_PROTO \<equiv> 9 :: nat"
abbreviation (input) "IP_CKSUM \<equiv> 10 :: nat"
abbreviation (input) "IP_SRC \<equiv> 12 :: nat"
abbreviation (input) "IP_DST \<equiv> 16 :: nat"

abbreviation (input) "UDP_HDR_LEN \<equiv> 8 :: nat"
abbreviation (input) "UDP_SRC \<equiv> 0 :: nat"
abbreviation (input) "UDP_DST \<equiv> 2 :: nat"
abbreviation (input) "UDP_LEN \<equiv> 4 :: nat"
abbreviation (input) "UDP_CKSUM \<equiv> 6 :: nat"

abbreviation (input) "TCP_HDR_LEN \<equiv> 20 :: nat"
abbreviation (input) "TCP_SRC \<equiv> 0 :: nat"
abbreviation (input) "TCP_DST \<equiv> 2 :: nat"
abbreviation (input) "TCP_SEQ \<equiv> 4 :: nat"
abbreviation (input) "TCP_ACK \<equiv> 8 :: nat"
abbreviation (input) "TCP_DATA_OFF \<equiv> 12 :: nat"
abbreviation (input) "TCP_FLAGS \<equiv> 13 :: nat"
abbreviation (input) "TCP_WIN \<equiv> 14 :: nat"
abbreviation (input) "TCP_CKSUM \<equiv> 16 :: nat"
abbreviation (input) "TCP_URP \<equiv> 18 :: nat"

abbreviation (input) "ARP_HDR_LEN \<equiv> 28 :: nat"
abbreviation (input) "ARP_HARDWARE \<equiv> 0 :: nat"
abbreviation (input) "ARP_PROTOCOL \<equiv> 2 :: nat"
abbreviation (input) "ARP_HLEN \<equiv> 4 :: nat"
abbreviation (input) "ARP_PLEN \<equiv> 5 :: nat"
abbreviation (input) "ARP_OPCODE \<equiv> 6 :: nat"
abbreviation (input) "ARP_SHA \<equiv> 8 :: nat"
abbreviation (input) "ARP_SIP \<equiv> 14 :: nat"
abbreviation (input) "ARP_THA \<equiv> 18 :: nat"
abbreviation (input) "ARP_TIP \<equiv> 24 :: nat"

section \<open>Protocol numbers\<close>

abbreviation (input) "RTE_ETHER_TYPE_IPV4 \<equiv> 0x0800 :: u16"
abbreviation (input) "RTE_ETHER_TYPE_ARP \<equiv> 0x0806 :: u16"
abbreviation (input) "RTE_ETHER_TYPE_VLAN \<equiv> 0x8100 :: u16"
abbreviation (input) "RTE_ARP_HRD_ETHER \<equiv> 1 :: u16"
abbreviation (input) "RTE_ARP_OP_REQUEST \<equiv> 1 :: u16"
abbreviation (input) "RTE_ARP_OP_REPLY \<equiv> 2 :: u16"
abbreviation (input) "IPPROTO_IPIP \<equiv> 4 :: u8"
abbreviation (input) "IPPROTO_TCP \<equiv> 6 :: u8"
abbreviation (input) "IPPROTO_UDP \<equiv> 17 :: u8"

section \<open>Appending to a buffer\<close>

definition on_append :: "dpdk \<Rightarrow> mbuf \<Rightarrow> u16 \<Rightarrow> (nat \<Rightarrow> mbuf \<Rightarrow> 'a res) \<Rightarrow> 'a res" where
  "on_append d m n k =
     (case rte_pktmbuf_append d m n of
        (None, _) \<Rightarrow> Inl Null_Deref
      | (Some p, m') \<Rightarrow> k p m')"

lemma on_append_eq [simp]:
  assumes "append_ok d"
  shows "on_append d m n k =
     (if data_len m + unat n \<le> data_room d (buf_addr m)
      then k (data_len m) (m\<lparr>data_len := data_len m + unat n\<rparr>) else Inl Null_Deref)"
  using assms by (simp add: on_append_def append_ok_def)

end
