(* ===== verification/Arp.thy ===== *)
theory Arp
  imports Headers
begin

text \<open>
  ARP, from \<open>utils/arp.c\<close>: building a request or reply (\<open>_prepare_arp_pkt\<close>), sending it
  (\<open>send_arp\<close>) and resolving a destination (\<open>get_dst_mac\<close>), which sends a request every second
  and polls the queues until a reply arrives. The resolver may run for ever; that is the value
  \<open>None\<close>. The lemmas show which bytes an ARP packet has, that no packet buffer is lost on any
  path, when the resolver returns and what it returns.
\<close>

section \<open>Model\<close>

definition prepare_arp_pkt ::
  "dpdk \<Rightarrow> mbuf \<Rightarrow> u16 \<Rightarrow> ether_addr \<Rightarrow> u32 \<Rightarrow> ether_addr \<Rightarrow> u32 \<Rightarrow> mbuf res" where
  "prepare_arp_pkt d buf op src_mac src_ip dst_eth dst_ip =
     on_append d buf (of_nat ETHER_HDR_LEN) (\<lambda>eth buf.
     let f = pkt buf;
         f = st_mac f (eth + ETH_SRC) src_mac;
         f = st_mac f (eth + ETH_DST) dst_eth;
         f = st16 f (eth + ETH_TYPE) (rte_cpu_to_be_16 d RTE_ETHER_TYPE_ARP)
     in on_append d (buf\<lparr>pkt := f\<rparr>) (of_nat ARP_HDR_LEN) (\<lambda>a buf.
     let f = pkt buf;
         f = st16 f (a + ARP_HARDWARE) (rte_cpu_to_be_16 d RTE_ARP_HRD_ETHER);
         f = st16 f (a + ARP_PROTOCOL) (rte_cpu_to_be_16 d RTE_ETHER_TYPE_IPV4);
         f = st8 f (a + ARP_HLEN) 6;
         f = st8 f (a + ARP_PLEN) 4;
         f = st16 f (a + ARP_OPCODE) (rte_cpu_to_be_16 d op);
         f = st_mac f (a + ARP_SHA) src_mac;
         f = st32 f (a + ARP_SIP) (rte_cpu_to_be_32 d src_ip);
         f = st_mac f (a + ARP_THA) dst_eth;
         f = st32 f (a + ARP_TIP) (rte_cpu_to_be_32 d dst_ip)
     in Inr (buf\<lparr>pkt := f\<rparr>)))"

definition send_arp ::
  "dpdk \<Rightarrow> u16 \<Rightarrow> u32 \<Rightarrow> ether_addr \<Rightarrow> u32 \<Rightarrow> mempool \<Rightarrow> u8 \<Rightarrow> trace \<Rightarrow> trace res" where
  "send_arp d op src_ip dst_eth dst_ip tx_mbuf_pool cdq t =
     (let qid = (if cdq \<noteq> 0 then 1 else 0);
          src_eth = rte_eth_macaddr_get d 0
      in case pktmbuf_alloc d tx_mbuf_pool t of
           (None, t1) \<Rightarrow> Inr t1
         | (Some buf, t1) \<Rightarrow>
             (case prepare_arp_pkt d buf op src_eth src_ip dst_eth dst_ip of
                Inl e \<Rightarrow> Inl e
              | Inr buf \<Rightarrow>
                  let (nb_tx, t2) = tx_burst d 0 qid [buf] t1
                  in Inr (if nb_tx \<noteq> 1 then pktmbuf_free buf t2 else t2)))"

text \<open>Does a packet carry an ARP reply for this host? These are the conditions of
  \<open>get_dst_mac\<close>: the reply's sender address \<open>arp_sip\<close> is not compared with the address asked
  for.\<close>

definition is_arp_reply_for :: "dpdk \<Rightarrow> ether_addr \<Rightarrow> u32 \<Rightarrow> mem \<Rightarrow> bool" where
  "is_arp_reply_for d src_mac src_ip f \<longleftrightarrow>
     rte_be_to_cpu_16 d (ld16 f ETH_TYPE) = RTE_ETHER_TYPE_ARP \<and>
     ld16 f (ETHER_HDR_LEN + ARP_OPCODE) = rte_cpu_to_be_16 d RTE_ARP_OP_REPLY \<and>
     rte_is_same_ether_addr d (ld_mac f (ETHER_HDR_LEN + ARP_THA)) src_mac \<and>
     ld32 f (ETHER_HDR_LEN + ARP_TIP) = rte_cpu_to_be_32 d src_ip"

text \<open>The body of the loop over one burst. The state is the address found so far.\<close>

definition arp_handle ::
  "dpdk \<Rightarrow> ether_addr \<Rightarrow> u32 \<Rightarrow> mbuf \<Rightarrow> ether_addr option \<times> trace \<Rightarrow> (ether_addr option \<times> trace) res" where
  "arp_handle d src_mac src_ip buf =
     (\<lambda>(found_res, t).
       if found_res \<noteq> None then Inr (found_res, pktmbuf_free buf t)
       else if \<not> rte_is_same_ether_addr d (ld_mac (pkt buf) ETH_DST) src_mac
       then Inr (None, pktmbuf_free buf t)
       else
         let found_res = (if is_arp_reply_for d src_mac src_ip (pkt buf)
                          then Some (ld_mac (pkt buf) (ETHER_HDR_LEN + ARP_SHA)) else None)
         in Inr (found_res, pktmbuf_free buf t))"

text \<open>The loop over the queues, which ends as soon as an address is found.\<close>

fun arp_poll ::
  "dpdk \<Rightarrow> u16 \<Rightarrow> u32 \<Rightarrow> ether_addr \<Rightarrow> nat list \<Rightarrow> ether_addr option \<times> trace \<Rightarrow> (ether_addr option \<times> trace) res" where
  "arp_poll d port src_ip src_mac [] (found_res, t) = Inr (found_res, t)"
| "arp_poll d port src_ip src_mac (rx_q # qs) (found_res, t) =
     (if found_res \<noteq> None then Inr (found_res, t)
      else let (bufs, t1) = rx_burst d port (of_nat rx_q) 32 t
           in case fold_res (arp_handle d src_mac src_ip) bufs (found_res, t1) of
                Inl e \<Rightarrow> Inl e
              | Inr (found_res, t2) \<Rightarrow> arp_poll d port src_ip src_mac qs (found_res, t2))"

definition arp_round ::
  "dpdk \<Rightarrow> u16 \<Rightarrow> u32 \<Rightarrow> ether_addr \<Rightarrow> u32 \<Rightarrow> ether_addr \<Rightarrow> mempool \<Rightarrow> u8 \<Rightarrow> u16 \<Rightarrow> trace \<Rightarrow>
     (ether_addr option \<times> trace) res" where
  "arp_round d port src_ip src_mac dst_ip broadcast_mac tx_mbuf_pool cdq count_queue t =
     (case send_arp d RTE_ARP_OP_REQUEST src_ip broadcast_mac dst_ip tx_mbuf_pool cdq t of
        Inl e \<Rightarrow> Inl e
      | Inr t1 \<Rightarrow> arp_poll d port src_ip src_mac [0..<unat count_queue] (None, sleep_s 1 t1))"

partial_function (option) get_dst_mac ::
  "dpdk \<Rightarrow> u16 \<Rightarrow> u32 \<Rightarrow> ether_addr \<Rightarrow> u32 \<Rightarrow> ether_addr \<Rightarrow> mempool \<Rightarrow> u8 \<Rightarrow> u16 \<Rightarrow> trace \<Rightarrow>
     (ether_addr \<times> trace) res option" where
  "get_dst_mac d port src_ip src_mac dst_ip broadcast_mac tx_mbuf_pool cdq count_queue t =
     (case arp_round d port src_ip src_mac dst_ip broadcast_mac tx_mbuf_pool cdq count_queue t of
        Inl e \<Rightarrow> Some (Inl e)
      | Inr (Some dst_mac, t1) \<Rightarrow> Some (Inr (dst_mac, t1))
      | Inr (None, t1) \<Rightarrow>
          get_dst_mac d port src_ip src_mac dst_ip broadcast_mac tx_mbuf_pool cdq count_queue t1)"

text \<open>A round without an answer, after which the loop starts over.\<close>

inductive arp_pending ::
  "dpdk \<Rightarrow> u16 \<Rightarrow> u32 \<Rightarrow> ether_addr \<Rightarrow> u32 \<Rightarrow> ether_addr \<Rightarrow> mempool \<Rightarrow> u8 \<Rightarrow> u16 \<Rightarrow> trace \<Rightarrow> trace \<Rightarrow> bool"
  for d port src_ip src_mac dst_ip bc pool cdq n where
  "arp_round d port src_ip src_mac dst_ip bc pool cdq n t = Inr (None, t') \<Longrightarrow>
     arp_pending d port src_ip src_mac dst_ip bc pool cdq n t t'"

text \<open>A received buffer that answers the request.\<close>

definition arp_accepts :: "dpdk \<Rightarrow> ether_addr \<Rightarrow> u32 \<Rightarrow> mbuf \<Rightarrow> bool" where
  "arp_accepts d src_mac src_ip b \<longleftrightarrow>
     rte_is_same_ether_addr d (ld_mac (pkt b) ETH_DST) src_mac \<and> is_arp_reply_for d src_mac src_ip (pkt b)"

text \<open>A buffer that holds an Ethernet/IPv4 ARP packet with the given contents.\<close>

definition arp_packet :: "dpdk \<Rightarrow> u16 \<Rightarrow> ether_addr \<Rightarrow> u32 \<Rightarrow> ether_addr \<Rightarrow> u32 \<Rightarrow> mbuf \<Rightarrow> bool" where
  "arp_packet d op src_mac src_ip dst_eth dst_ip b \<longleftrightarrow>
     data_len b = ETHER_HDR_LEN + ARP_HDR_LEN \<and>
     ld_mac (pkt b) ETH_DST = dst_eth \<and> ld_mac (pkt b) ETH_SRC = src_mac \<and>
     ld16 (pkt b) ETH_TYPE = rte_cpu_to_be_16 d RTE_ETHER_TYPE_ARP \<and>
     ld16 (pkt b) (ETHER_HDR_LEN + ARP_HARDWARE) = rte_cpu_to_be_16 d RTE_ARP_HRD_ETHER \<and>
     ld16 (pkt b) (ETHER_HDR_LEN + ARP_PROTOCOL) = rte_cpu_to_be_16 d RTE_ETHER_TYPE_IPV4 \<and>
     ld8 (pkt b) (ETHER_HDR_LEN + ARP_HLEN) = 6 \<and> ld8 (pkt b) (ETHER_HDR_LEN + ARP_PLEN) = 4 \<and>
     ld16 (pkt b) (ETHER_HDR_LEN + ARP_OPCODE) = rte_cpu_to_be_16 d op \<and>
     ld_mac (pkt b) (ETHER_HDR_LEN + ARP_SHA) = src_mac \<and>
     ld32 (pkt b) (ETHER_HDR_LEN + ARP_SIP) = rte_cpu_to_be_32 d src_ip \<and>
     ld_mac (pkt b) (ETHER_HDR_LEN + ARP_THA) = dst_eth \<and>
     ld32 (pkt b) (ETHER_HDR_LEN + ARP_TIP) = rte_cpu_to_be_32 d dst_ip"

text \<open>The calls of sending one packet \<open>b\<close>, in a buffer \<open>m\<close> from the pool: the device is offered
  it once, takes \<open>n\<close> packets, and the buffer is freed if that is not one.\<close>

definition sent_once :: "u8 \<Rightarrow> mbuf \<Rightarrow> mbuf \<Rightarrow> nat \<Rightarrow> trace \<Rightarrow> trace" where
  "sent_once cdq m b n t =
     (if n = 1 then [] else [Mbuf_Free b]) @ Tx_Burst 0 (if cdq \<noteq> 0 then 1 else 0) [b] n # Mbuf_Alloc [m] # t"

text \<open>Polling queues: every burst is received and all its buffers are freed. \<open>arp_unanswered\<close> tells
  that none of the bursts holds an acceptable reply.\<close>

definition polled_burst :: "dpdk \<Rightarrow> u16 \<Rightarrow> nat \<Rightarrow> trace \<Rightarrow> mbuf list" where
  "polled_burst d port q t = rte_eth_rx_burst d t port (of_nat q) 32"

fun polled :: "dpdk \<Rightarrow> u16 \<Rightarrow> nat list \<Rightarrow> trace \<Rightarrow> trace" where
  "polled d port [] t = t"
| "polled d port (q # qs) t =
     (let bufs = polled_burst d port q t
      in polled d port qs (map Mbuf_Free (rev bufs) @ Rx_Burst port (of_nat q) bufs # t))"

definition arp_unanswered :: "dpdk \<Rightarrow> u16 \<Rightarrow> ether_addr \<Rightarrow> u32 \<Rightarrow> nat \<Rightarrow> trace \<Rightarrow> bool" where
  "arp_unanswered d port src_mac src_ip n t \<longleftrightarrow>
     (\<forall>j < n. \<forall>b \<in> set (polled_burst d port j (polled d port [0..<j] t)). \<not> arp_accepts d src_mac src_ip b)"

text \<open>The request of a round: one well-formed ARP request for \<open>dst_ip\<close>, offered to the device once,
  if the pool has a buffer; then the sleep.\<close>

definition arp_requested ::
  "dpdk \<Rightarrow> u32 \<Rightarrow> u32 \<Rightarrow> ether_addr \<Rightarrow> mempool \<Rightarrow> u8 \<Rightarrow> trace \<Rightarrow> trace \<Rightarrow> bool" where
  "arp_requested d src_ip dst_ip bc pool cdq t t1 \<longleftrightarrow>
     (case rte_pktmbuf_alloc d t pool of
        None \<Rightarrow> t1 = Sleep 1 # Alloc_Failed 1 # t
      | Some m \<Rightarrow> \<exists>b. arp_packet d RTE_ARP_OP_REQUEST (rte_eth_macaddr_get d 0) src_ip bc dst_ip b \<and> buf_addr b = buf_addr m \<and>
          t1 = Sleep 1 # sent_once cdq m b
                 (rte_eth_tx_burst d (Mbuf_Alloc [m] # t) 0 (if cdq \<noteq> 0 then 1 else 0) [b]) t)"

text \<open>A round in which the request is sent and no queue delivers an answer, and one that ends with
  the first acceptable reply, in the order of the queues.\<close>

inductive arp_silent ::
  "dpdk \<Rightarrow> u16 \<Rightarrow> u32 \<Rightarrow> ether_addr \<Rightarrow> u32 \<Rightarrow> ether_addr \<Rightarrow> mempool \<Rightarrow> u8 \<Rightarrow> u16 \<Rightarrow> trace \<Rightarrow> trace \<Rightarrow> bool"
  for d port src_ip src_mac dst_ip bc pool cdq n where
  "arp_requested d src_ip dst_ip bc pool cdq t t1 \<Longrightarrow> arp_unanswered d port src_mac src_ip (unat n) t1 \<Longrightarrow>
     arp_silent d port src_ip src_mac dst_ip bc pool cdq n t (polled d port [0..<unat n] t1)"

inductive arp_answered ::
  "dpdk \<Rightarrow> u16 \<Rightarrow> u32 \<Rightarrow> ether_addr \<Rightarrow> u32 \<Rightarrow> ether_addr \<Rightarrow> mempool \<Rightarrow> u8 \<Rightarrow> u16 \<Rightarrow> trace \<Rightarrow> ether_addr \<Rightarrow> trace \<Rightarrow> bool"
  for d port src_ip src_mac dst_ip bc pool cdq n where
  "arp_requested d src_ip dst_ip bc pool cdq t t1 \<Longrightarrow> i < unat n \<Longrightarrow> arp_unanswered d port src_mac src_ip i t1 \<Longrightarrow>
     find (arp_accepts d src_mac src_ip) (polled_burst d port i (polled d port [0..<i] t1)) = Some b \<Longrightarrow>
     arp_answered d port src_ip src_mac dst_ip bc pool cdq n t
       (ld_mac (pkt b) (ETHER_HDR_LEN + ARP_SHA)) (polled d port [0..<Suc i] t1)"

text \<open>A reply as it arrives at the host with addresses \<open>src_mac\<close> and \<open>src_ip\<close>, and a device
  that delivers it when polled.\<close>

definition arp_reply_example :: "ether_addr \<Rightarrow> ether_addr \<Rightarrow> u32 \<Rightarrow> mbuf" where
  "arp_reply_example sender src_mac src_ip =
     (let f = pkt (empty_mbuf 7);
          f = st_mac f ETH_DST src_mac;
          f = st16 f ETH_TYPE (bswap16 RTE_ETHER_TYPE_ARP);
          f = st16 f (ETHER_HDR_LEN + ARP_OPCODE) (bswap16 RTE_ARP_OP_REPLY);
          f = st_mac f (ETHER_HDR_LEN + ARP_SHA) sender;
          f = st_mac f (ETHER_HDR_LEN + ARP_THA) src_mac;
          f = st32 f (ETHER_HDR_LEN + ARP_TIP) (bswap32 src_ip)
      in (empty_mbuf 7)\<lparr>pkt := f, data_len := 42\<rparr>)"

definition arp_request_example :: "u32 \<Rightarrow> mbuf" where
  "arp_request_example ip =
     (let f = pkt (empty_mbuf 9);
          f = st_mac f ETH_DST broadcast_addr;
          f = st16 f ETH_TYPE (bswap16 RTE_ETHER_TYPE_ARP);
          f = st16 f (ETHER_HDR_LEN + ARP_OPCODE) (bswap16 RTE_ARP_OP_REQUEST);
          f = st_mac f (ETHER_HDR_LEN + ARP_SHA) (Ether_Addr 2 0 0 0 0 1);
          f = st32 f (ETHER_HDR_LEN + ARP_SIP) (bswap32 0xC0A80101);
          f = st32 f (ETHER_HDR_LEN + ARP_TIP) (bswap32 ip)
      in (empty_mbuf 9)\<lparr>pkt := f, data_len := 42\<rparr>)"

definition arp_sim :: dpdk where
  "arp_sim = sim (\<lambda>_. 0) (\<lambda>_ _. [arp_reply_example (Ether_Addr 2 0 0 0 0 1) (Ether_Addr 2 0 0 0 0 2) 0xC0A80102])
     (\<lambda>_. 1) (Ether_Addr 2 0 0 0 0 2)"

section \<open>The packets\<close>

text \<open>The packet \<open>_prepare_arp_pkt\<close> writes into an empty buffer with room for it is an
  Ethernet frame of 42 bytes whose addresses are those given, of type ARP, and whose ARP header
  says Ethernet over IPv4, carries the operation, and names sender and target by hardware and
  protocol address in network byte order. Bytes past the packet are left as they were. Without
  the room the code writes through a null pointer.\<close>

lemma prepare_arp_pkt_fields:
  assumes "append_ok d" and "data_len buf = 0"
  shows "(if 42 \<le> data_room d (buf_addr buf)
    then \<exists>b. prepare_arp_pkt d buf op src_mac src_ip dst_eth dst_ip = Inr b \<and>
           buf_addr b = buf_addr buf \<and> arp_packet d op src_mac src_ip dst_eth dst_ip b \<and>
           (\<forall>i \<ge> 42. pkt b i = pkt buf i)
    else prepare_arp_pkt d buf op src_mac src_ip dst_eth dst_ip = Inl Null_Deref)"
  using assms by (simp add: prepare_arp_pkt_def arp_packet_def Let_def cell_simps)

lemma prepare_arp_pkt_ok:
  assumes "append_ok d" and "data_len buf = 0" and "42 \<le> data_room d (buf_addr buf)"
  shows "\<exists>b. prepare_arp_pkt d buf op src_mac src_ip dst_eth dst_ip = Inr b \<and>
     arp_packet d op src_mac src_ip dst_eth dst_ip b"
  using prepare_arp_pkt_fields [OF assms(1,2), of op src_mac src_ip dst_eth dst_ip] assms(3) by auto

text \<open>The calls \<open>send_arp\<close> makes when the pool has a buffer.\<close>

lemma send_arp_sends:
  assumes "append_ok d" and "rte_pktmbuf_alloc d t pool = Some m" and "data_len m = 0"
    and "42 \<le> data_room d (buf_addr m)"
  shows "\<exists>b n. send_arp d op src_ip dst_eth dst_ip pool cdq t = Inr (sent_once cdq m b n t) \<and>
     arp_packet d op (rte_eth_macaddr_get d 0) src_ip dst_eth dst_ip b"
proof -
  obtain b where b: "prepare_arp_pkt d m op (rte_eth_macaddr_get d 0) src_ip dst_eth dst_ip = Inr b"
    "arp_packet d op (rte_eth_macaddr_get d 0) src_ip dst_eth dst_ip b"
    using prepare_arp_pkt_ok [OF assms(1,3,4)] by blast
  let ?n = "rte_eth_tx_burst d (Mbuf_Alloc [m] # t) 0 (if cdq \<noteq> 0 then 1 else 0) [b]"
  show ?thesis
    using assms(2) b by (intro exI [of _ b] exI [of _ ?n]) (simp add: send_arp_def sent_once_def trace_simps)
qed

text \<open>Who accepts such a packet as the answer to its request.\<close>

lemma arp_packet_accepted:
  assumes "byteorder_ok d" and "ether_ok d"
    and "arp_packet d RTE_ARP_OP_REPLY sender sender_ip host host_ip b"
  shows "arp_accepts d host host_ip b" and "ld_mac (pkt b) (ETHER_HDR_LEN + ARP_SHA) = sender"
  using assms by (simp_all add: arp_packet_def arp_accepts_def is_arp_reply_for_def)

section \<open>Buffers are neither lost nor freed twice\<close>

lemma prepare_arp_pkt_addr:
  "prepare_arp_pkt d buf op src_mac src_ip dst_eth dst_ip = Inr b \<Longrightarrow> append_ok d \<Longrightarrow>
     buf_addr b = buf_addr buf"
  by (auto simp: prepare_arp_pkt_def Let_def split: if_splits)

lemma send_arp_balance:
  assumes "append_ok d" and "tx_ok d"
    and "send_arp d op src_ip dst_eth dst_ip pool cdq t = Inr t'"
  shows "outstanding t' a = outstanding t a"
proof (cases "rte_pktmbuf_alloc d t pool")
  case None
  with assms(3) show ?thesis by (auto simp: send_arp_def Let_def trace_simps)
next
  case (Some buf)
  let ?q = "if cdq \<noteq> 0 then 1 else 0 :: u16"
  let ?t = "Mbuf_Alloc [buf] # t"
  obtain b where b: "prepare_arp_pkt d buf op (rte_eth_macaddr_get d 0) src_ip dst_eth dst_ip = Inr b"
    using assms(3) Some by (auto simp: send_arp_def Let_def trace_simps split: sum.splits)
  have addr: "buf_addr b = buf_addr buf" using prepare_arp_pkt_addr [OF b assms(1)] .
  have "rte_eth_tx_burst d ?t 0 ?q [b] \<le> 1" using tx_okD [OF assms(2), of ?t 0 ?q "[b]"] by simp
  with assms(3) Some b addr show ?thesis
    by (auto simp: send_arp_def trace_simps le_Suc_eq)
qed

interpretation arp_rx: rx_handler "arp_handle d src_mac src_ip" "\<lambda>_. []" for d src_mac src_ip
  by unfold_locales (auto simp: arp_handle_def Let_def trace_simps split: if_splits)

lemma arp_poll_ConsE:
  assumes "arp_poll d port src_ip src_mac (q # qs) (None, t) = Inr r"
  obtains bufs found t1 where
    "fold_res (arp_handle d src_mac src_ip) bufs (None, Rx_Burst port (of_nat q) bufs # t) = Inr (found, t1)"
    and "arp_poll d port src_ip src_mac qs (found, t1) = Inr r"
  using assms by (auto simp: trace_simps split: sum.splits)

lemma arp_poll_found [simp]:
  "arp_poll d port src_ip src_mac qs (Some m, t) = Inr (Some m, t)"
  by (cases qs) auto

lemma arp_poll_balance:
  "arp_poll d port src_ip src_mac qs (found, t) = Inr (found', t') \<Longrightarrow>
     outstanding t' a = outstanding t a"
proof (induction qs arbitrary: found t)
  case (Cons q qs)
  show ?case
  proof (cases found)
    case None
    with Cons.prems obtain bufs f1 t1 where
      fold: "fold_res (arp_handle d src_mac src_ip) bufs (None, Rx_Burst port (of_nat q) bufs # t) = Inr (f1, t1)"
      and rest: "arp_poll d port src_ip src_mac qs (f1, t1) = Inr (found', t')"
      by (metis arp_poll_ConsE)
    show ?thesis
      using arp_rx.poll_balance [OF fold, of a] Cons.IH [OF rest] by simp
  qed (use Cons.prems in auto)
qed simp

lemma arp_round_balance:
  assumes "append_ok d" and "tx_ok d"
    and "arp_round d port src_ip src_mac dst_ip bc pool cdq n t = Inr (found, t')"
  shows "outstanding t' a = outstanding t a"
proof -
  obtain t1 where "send_arp d RTE_ARP_OP_REQUEST src_ip bc dst_ip pool cdq t = Inr t1"
    and "arp_poll d port src_ip src_mac [0..<unat n] (None, Sleep 1 # t1) = Inr (found, t')"
    using assms(3) by (auto simp: arp_round_def trace_simps split: sum.splits)
  then show ?thesis
    using send_arp_balance [OF assms(1,2)] arp_poll_balance [where a = a] by fastforce
qed

section \<open>The resolver\<close>

lemma get_dst_mac_after_pending:
  assumes "(arp_pending d port src_ip src_mac dst_ip bc pool cdq n)\<^sup>*\<^sup>* t t1"
  shows "get_dst_mac d port src_ip src_mac dst_ip bc pool cdq n t =
         get_dst_mac d port src_ip src_mac dst_ip bc pool cdq n t1"
  using assms
proof (induction rule: converse_rtranclp_induct)
  case (step t t')
  then have "arp_round d port src_ip src_mac dst_ip bc pool cdq n t = Inr (None, t')"
    by (auto elim: arp_pending.cases)
  then show ?case using step.IH by (subst get_dst_mac.simps) simp
qed simp

lemma get_dst_mac_returns:
  assumes "get_dst_mac d port src_ip src_mac dst_ip bc pool cdq n t = Some r"
  shows "\<exists>t1. (arp_pending d port src_ip src_mac dst_ip bc pool cdq n)\<^sup>*\<^sup>* t t1 \<and>
     (case arp_round d port src_ip src_mac dst_ip bc pool cdq n t1 of
        Inl e \<Rightarrow> r = Inl e | Inr (found, t2) \<Rightarrow> (\<exists>m. found = Some m \<and> r = Inr (m, t2)))"
proof (rule get_dst_mac.raw_induct [OF _ assms])
  fix f d port src_ip src_mac dst_ip bc pool cdq n t r
  assume IH: "\<And>d port src_ip src_mac dst_ip bc pool cdq n t r.
      f d port src_ip src_mac dst_ip bc pool cdq n t = Some r \<Longrightarrow>
      \<exists>t1. (arp_pending d port src_ip src_mac dst_ip bc pool cdq n)\<^sup>*\<^sup>* t t1 \<and>
       (case arp_round d port src_ip src_mac dst_ip bc pool cdq n t1 of
        Inl e \<Rightarrow> r = Inl e | Inr (found, t2) \<Rightarrow> (\<exists>m. found = Some m \<and> r = Inr (m, t2)))"
    and eq: "(case arp_round d port src_ip src_mac dst_ip bc pool cdq n t of
        Inl e \<Rightarrow> Some (Inl e)
      | Inr (Some dst_mac, t1) \<Rightarrow> Some (Inr (dst_mac, t1))
      | Inr (None, t1) \<Rightarrow> f d port src_ip src_mac dst_ip bc pool cdq n t1) = Some r"
  show "\<exists>t1. (arp_pending d port src_ip src_mac dst_ip bc pool cdq n)\<^sup>*\<^sup>* t t1 \<and>
       (case arp_round d port src_ip src_mac dst_ip bc pool cdq n t1 of
        Inl e \<Rightarrow> r = Inl e | Inr (found, t2) \<Rightarrow> (\<exists>m. found = Some m \<and> r = Inr (m, t2)))"
  proof (cases "\<exists>t'. arp_round d port src_ip src_mac dst_ip bc pool cdq n t = Inr (None, t')")
    case True
    then obtain t' where t': "arp_round d port src_ip src_mac dst_ip bc pool cdq n t = Inr (None, t')" ..
    then have "f d port src_ip src_mac dst_ip bc pool cdq n t' = Some r" using eq by simp
    from IH [OF this] arp_pending.intros [OF t'] show ?thesis
      by (meson converse_rtranclp_into_rtranclp)
  next
    case False
    with eq show ?thesis by (intro exI [of _ t]) (auto split: sum.splits option.splits)
  qed
qed

lemma get_dst_mac_resolved:
  assumes "get_dst_mac d port src_ip src_mac dst_ip bc pool cdq n t = Some (Inr (mac, t2))"
  shows "\<exists>t1. (arp_pending d port src_ip src_mac dst_ip bc pool cdq n)\<^sup>*\<^sup>* t t1 \<and>
     arp_round d port src_ip src_mac dst_ip bc pool cdq n t1 = Inr (Some mac, t2)"
proof -
  from get_dst_mac_returns [OF assms] obtain t1 where
    t1: "(arp_pending d port src_ip src_mac dst_ip bc pool cdq n)\<^sup>*\<^sup>* t t1"
    and r: "case arp_round d port src_ip src_mac dst_ip bc pool cdq n t1 of
        Inl e \<Rightarrow> Inr (mac, t2) = (Inl e :: (ether_addr \<times> trace) res)
      | Inr (found, t3) \<Rightarrow> \<exists>m. found = Some m \<and> Inr (mac, t2) = (Inr (m, t3) :: (ether_addr \<times> trace) res)"
    by blast
  have "arp_round d port src_ip src_mac dst_ip bc pool cdq n t1 = Inr (Some mac, t2)"
    using r by (cases "arp_round d port src_ip src_mac dst_ip bc pool cdq n t1") auto
  with t1 show ?thesis by blast
qed

text \<open>What one burst yields: the sender of the first acceptable reply, all buffers freed in
  order.\<close>

lemma arp_burst_eq:
  "fold_res (arp_handle d src_mac src_ip) bufs (found, t) =
     Inr (case found of Some m \<Rightarrow> Some m
          | None \<Rightarrow> map_option (\<lambda>b. ld_mac (pkt b) (ETHER_HDR_LEN + ARP_SHA))
                      (find (arp_accepts d src_mac src_ip) bufs),
          map Mbuf_Free (rev bufs) @ t)"
  by (induction bufs arbitrary: found t)
     (auto simp: arp_handle_def arp_accepts_def trace_simps split: option.splits)

text \<open>What one round does.\<close>

lemma polled_append: "polled d port (ps @ qs) t = polled d port qs (polled d port ps t)"
  by (induction ps arbitrary: t) (simp_all add: Let_def)

lemma arp_poll_cases:
  assumes "qs = [k..<n]" and "k \<le> n" and "arp_unanswered d port src_mac src_ip k t"
  obtains "arp_unanswered d port src_mac src_ip n t"
      and "arp_poll d port src_ip src_mac qs (None, polled d port [0..<k] t) = Inr (None, polled d port [0..<n] t)"
  | i b where "i < n" and "arp_unanswered d port src_mac src_ip i t"
      and "find (arp_accepts d src_mac src_ip) (polled_burst d port i (polled d port [0..<i] t)) = Some b"
      and "arp_poll d port src_ip src_mac qs (None, polled d port [0..<k] t) =
             Inr (Some (ld_mac (pkt b) (ETHER_HDR_LEN + ARP_SHA)), polled d port [0..<Suc i] t)"
  using assms
proof (induction qs arbitrary: k thesis)
  case Nil
  have "k = n" using Nil.prems(4) Nil.prems(3) [symmetric] by auto
  with Nil.prems show ?case by simp
next
  case (Cons q qs)
  have q: "q = k" "qs = [Suc k..<n]" "k < n" using Cons.prems(3) [symmetric] by (auto simp: upt_eq_Cons_conv)
  let ?b = "polled_burst d port k (polled d port [0..<k] t)"
  have next_trace: "polled d port [0..<Suc k] t = map Mbuf_Free (rev ?b) @ Rx_Burst port (of_nat k) ?b # polled d port [0..<k] t"
    by (simp add: polled_append Let_def)
  have poll: "arp_poll d port src_ip src_mac (q # qs) (None, polled d port [0..<k] t) =
      arp_poll d port src_ip src_mac qs (map_option (\<lambda>b. ld_mac (pkt b) (ETHER_HDR_LEN + ARP_SHA))
        (find (arp_accepts d src_mac src_ip) ?b), polled d port [0..<Suc k] t)"
    by (simp only: next_trace) (simp add: q(1) trace_simps arp_burst_eq polled_burst_def)
  show ?case
  proof (cases "find (arp_accepts d src_mac src_ip) ?b")
    case None
    then have "\<forall>b \<in> set ?b. \<not> arp_accepts d src_mac src_ip b" by (simp add: find_None_iff)
    then have un: "arp_unanswered d port src_mac src_ip (Suc k) t"
      using Cons.prems(5) by (auto simp: arp_unanswered_def less_Suc_eq)
    show ?thesis
    proof (rule Cons.IH [OF _ _ q(2) _ un])
      show "Suc k \<le> n" using q(3) by simp
    qed (use Cons.prems(1,2) poll None in auto)
  next
    case (Some b)
    then show ?thesis using Cons.prems(2) [OF q(3) Cons.prems(5) Some] poll by simp
  qed
qed

lemma send_arp_requested:
  assumes "append_ok d" and "alloc_ok d"
  shows "case send_arp d RTE_ARP_OP_REQUEST src_ip bc dst_ip pool cdq t of
      Inl e \<Rightarrow> e = Null_Deref \<and> (\<exists>m. rte_pktmbuf_alloc d t pool = Some m \<and> data_room d (buf_addr m) < 42)
    | Inr t1 \<Rightarrow> arp_requested d src_ip dst_ip bc pool cdq t (Sleep 1 # t1)"
proof (cases "rte_pktmbuf_alloc d t pool")
  case None
  then show ?thesis by (simp add: send_arp_def arp_requested_def trace_simps)
next
  case (Some m)
  then have "data_len m = 0" using assms(2) by (simp add: alloc_ok_def)
  from prepare_arp_pkt_fields [OF assms(1) this, of RTE_ARP_OP_REQUEST "rte_eth_macaddr_get d 0" src_ip bc dst_ip]
  show ?thesis
    using Some by (auto simp: send_arp_def arp_requested_def sent_once_def trace_simps Let_def split: if_splits)
qed

lemma arp_round_cases:
  assumes "append_ok d" and "alloc_ok d"
  shows "case arp_round d port src_ip src_mac dst_ip bc pool cdq n t of
      Inl e \<Rightarrow> e = Null_Deref \<and> (\<exists>m. rte_pktmbuf_alloc d t pool = Some m \<and> data_room d (buf_addr m) < 42)
    | Inr (None, t') \<Rightarrow> arp_silent d port src_ip src_mac dst_ip bc pool cdq n t t'
    | Inr (Some mac, t') \<Rightarrow> arp_answered d port src_ip src_mac dst_ip bc pool cdq n t mac t'"
proof (cases "send_arp d RTE_ARP_OP_REQUEST src_ip bc dst_ip pool cdq t")
  case (Inl e)
  then show ?thesis
    using send_arp_requested [OF assms, where src_ip = src_ip and bc = bc and dst_ip = dst_ip and pool = pool and cdq = cdq and t = t] by (simp add: arp_round_def)
next
  case (Inr t1)
  have req: "arp_requested d src_ip dst_ip bc pool cdq t (Sleep 1 # t1)"
    using send_arp_requested [OF assms, where src_ip = src_ip and bc = bc and dst_ip = dst_ip and pool = pool and cdq = cdq and t = t] Inr by simp
  have un: "arp_unanswered d port src_mac src_ip 0 (Sleep 1 # t1)" by (simp add: arp_unanswered_def)
  have round: "arp_round d port src_ip src_mac dst_ip bc pool cdq n t =
      arp_poll d port src_ip src_mac [0..<unat n] (None, polled d port [0..<0] (Sleep 1 # t1))"
    by (simp add: arp_round_def Inr trace_simps)
  show ?thesis
    unfolding round
  proof (rule arp_poll_cases [OF refl _ un, of "unat n"], simp, goal_cases)
    case 1
    then show ?case using arp_silent.intros [OF req 1(1)] by simp
  next
    case (2 i b)
    then show ?case using arp_answered.intros [OF req 2(1-3)] by (simp del: upt_Suc)
  qed
qed

lemma arp_pending_silent:
  assumes "append_ok d" and "alloc_ok d" and "(arp_pending d port src_ip src_mac dst_ip bc pool cdq n)\<^sup>*\<^sup>* t t1"
  shows "(arp_silent d port src_ip src_mac dst_ip bc pool cdq n)\<^sup>*\<^sup>* t t1"
  using assms(3)
proof (induction rule: rtranclp_induct)
  case (step t1 t2)
  then have "arp_silent d port src_ip src_mac dst_ip bc pool cdq n t1 t2"
    using arp_round_cases [OF assms(1,2), where port = port and src_ip = src_ip and src_mac = src_mac and dst_ip = dst_ip and bc = bc and
      pool = pool and cdq = cdq and n = n and t = t1]
    by (auto elim!: arp_pending.cases)
  with step.IH show ?case by simp
qed simp

text \<open>A resolver that does not return makes one silent round after the other.\<close>

lemma get_dst_mac_diverges:
  assumes "append_ok d" and "alloc_ok d" and "get_dst_mac d port src_ip src_mac dst_ip bc pool cdq n t = None"
  shows "\<exists>T. T 0 = t \<and> (\<forall>k. arp_silent d port src_ip src_mac dst_ip bc pool cdq n (T k) (T (Suc k)))"
proof -
  let ?next = "\<lambda>t. snd (projr (arp_round d port src_ip src_mac dst_ip bc pool cdq n t))"
  let ?T = "\<lambda>k. (?next ^^ k) t"
  have step: "get_dst_mac d port src_ip src_mac dst_ip bc pool cdq n (?next u) = None \<and>
      arp_silent d port src_ip src_mac dst_ip bc pool cdq n u (?next u)"
    if "get_dst_mac d port src_ip src_mac dst_ip bc pool cdq n u = None" for u
    using that arp_round_cases [OF assms(1,2), where port = port and src_ip = src_ip and src_mac = src_mac and dst_ip = dst_ip and bc = bc and
      pool = pool and cdq = cdq and n = n and t = u]
    by (subst (asm) get_dst_mac.simps) (auto split: sum.splits option.splits)
  have "get_dst_mac d port src_ip src_mac dst_ip bc pool cdq n (?T k) = None" for k
    by (induction k) (use assms(3) step in simp_all)
  then show ?thesis using step by (intro exI [of _ ?T]) simp
qed

text \<open>C2. What the resolver \<open>get_dst_mac\<close> does, in all three outcomes. In every round it offers the
  device one well-formed request for the address (none when the pool is empty), sleeps, and polls
  the queues in order, freeing all it receives. It returns exactly the sender of the first
  acceptable reply, from the first round with one, and polls no further queue; it fails only by
  writing through a null pointer when the pool's buffer has no room for a request, after
  unanswered rounds; and when it does not return, every one of infinitely many rounds sent its
  request and received no acceptable reply on any queue.\<close>

theorem get_dst_mac_outcome:
  assumes "append_ok d" and "alloc_ok d"
  shows "case get_dst_mac d port src_ip src_mac dst_ip bc pool cdq n t of
      None \<Rightarrow> \<exists>T. T 0 = t \<and> (\<forall>k. arp_silent d port src_ip src_mac dst_ip bc pool cdq n (T k) (T (Suc k)))
    | Some (Inl e) \<Rightarrow> e = Null_Deref \<and>
        (\<exists>t1 m. (arp_silent d port src_ip src_mac dst_ip bc pool cdq n)\<^sup>*\<^sup>* t t1 \<and>
           rte_pktmbuf_alloc d t1 pool = Some m \<and> data_room d (buf_addr m) < 42)
    | Some (Inr (mac, t')) \<Rightarrow>
        \<exists>t1. (arp_silent d port src_ip src_mac dst_ip bc pool cdq n)\<^sup>*\<^sup>* t t1 \<and>
           arp_answered d port src_ip src_mac dst_ip bc pool cdq n t1 mac t'"
proof (cases "get_dst_mac d port src_ip src_mac dst_ip bc pool cdq n t")
  case None
  then show ?thesis using get_dst_mac_diverges [OF assms] by simp
next
  case (Some r)
  obtain t1 where pend: "(arp_pending d port src_ip src_mac dst_ip bc pool cdq n)\<^sup>*\<^sup>* t t1"
    and last: "case arp_round d port src_ip src_mac dst_ip bc pool cdq n t1 of
        Inl e \<Rightarrow> r = Inl e | Inr (found, t2) \<Rightarrow> (\<exists>m. found = Some m \<and> r = Inr (m, t2))"
    using get_dst_mac_returns [OF Some] by blast
  have silent: "(arp_silent d port src_ip src_mac dst_ip bc pool cdq n)\<^sup>*\<^sup>* t t1"
    using assms pend by (rule arp_pending_silent)
  show ?thesis
    using Some last silent arp_round_cases [OF assms, where port = port and src_ip = src_ip and src_mac = src_mac and dst_ip = dst_ip and bc = bc and
      pool = pool and cdq = cdq and n = n and t = t1]
    by (cases "arp_round d port src_ip src_mac dst_ip bc pool cdq n t1") auto
qed

lemma arp_poll_sound:
  "arp_poll d port src_ip src_mac qs (None, t) = Inr (Some mac, t') \<Longrightarrow>
     \<exists>ev q bufs b. t' = ev @ t \<and> Rx_Burst port q bufs \<in> set ev \<and> b \<in> set bufs \<and>
       arp_accepts d src_mac src_ip b \<and> mac = ld_mac (pkt b) (ETHER_HDR_LEN + ARP_SHA)"
proof (induction qs arbitrary: t)
  case (Cons q qs)
  let ?bufs = "rte_eth_rx_burst d t port (of_nat q) 32"
  let ?ev = "map Mbuf_Free (rev ?bufs) @ [Rx_Burst port (of_nat q) ?bufs]"
  show ?case
  proof (cases "find (arp_accepts d src_mac src_ip) ?bufs")
    case None
    with Cons.prems have "arp_poll d port src_ip src_mac qs (None, ?ev @ t) = Inr (Some mac, t')"
      by (simp add: trace_simps arp_burst_eq)
    from Cons.IH [OF this] obtain ev q' bufs b where
      "t' = ev @ ?ev @ t \<and> Rx_Burst port q' bufs \<in> set ev \<and> b \<in> set bufs \<and>
       arp_accepts d src_mac src_ip b \<and> mac = ld_mac (pkt b) (ETHER_HDR_LEN + ARP_SHA)" by blast
    then show ?thesis by (intro exI [of _ "ev @ ?ev"] exI [of _ q'] exI [of _ bufs] exI [of _ b]) simp
  next
    case (Some b)
    with Cons.prems have "t' = ?ev @ t" and "mac = ld_mac (pkt b) (ETHER_HDR_LEN + ARP_SHA)"
      by (simp_all add: trace_simps arp_burst_eq)
    moreover have "arp_accepts d src_mac src_ip b" and "b \<in> set ?bufs"
      using Some by (auto simp: find_Some_iff)
    ultimately show ?thesis
      by (intro exI [of _ ?ev] exI [of _ "of_nat q"] exI [of _ ?bufs] exI [of _ b]) simp
  qed
qed simp

lemma send_arp_extends: "send_arp d op si de di pool cdq t = Inr t' \<Longrightarrow> \<exists>ev. t' = ev @ t"
  by (auto simp: send_arp_def trace_simps split: option.splits sum.splits if_splits)

lemma arp_poll_extends:
  "arp_poll d port src_ip src_mac qs (found, t) = Inr (found', t') \<Longrightarrow> \<exists>ev. t' = ev @ t"
proof (induction qs arbitrary: found t)
  case (Cons q qs)
  show ?case
  proof (cases found)
    case None
    with Cons.prems obtain found1 where
      "arp_poll d port src_ip src_mac qs (found1, map Mbuf_Free (rev (rte_eth_rx_burst d t port (of_nat q) 32)) @
         Rx_Burst port (of_nat q) (rte_eth_rx_burst d t port (of_nat q) 32) # t) = Inr (found', t')"
      by (auto simp: trace_simps arp_burst_eq)
    from Cons.IH [OF this] show ?thesis by (metis append_Cons append_assoc append_Nil)
  qed (use Cons.prems in auto)
qed simp

lemma arp_round_extends:
  assumes "arp_round d port src_ip src_mac dst_ip bc pool cdq n t = Inr (found, t')"
  shows "\<exists>ev. t' = ev @ t"
proof -
  obtain t1 where "send_arp d RTE_ARP_OP_REQUEST src_ip bc dst_ip pool cdq t = Inr t1"
    and "arp_poll d port src_ip src_mac [0..<unat n] (None, Sleep 1 # t1) = Inr (found, t')"
    using assms by (auto simp: arp_round_def trace_simps split: sum.splits)
  then show ?thesis using send_arp_extends arp_poll_extends
    by (metis append_Cons append_assoc append_Nil)
qed

lemma arp_round_sound:
  assumes "arp_round d port src_ip src_mac dst_ip bc pool cdq n t = Inr (Some mac, t')"
  shows "\<exists>ev q bufs b. t' = ev @ t \<and> Rx_Burst port q bufs \<in> set ev \<and> b \<in> set bufs \<and>
     arp_accepts d src_mac src_ip b \<and> mac = ld_mac (pkt b) (ETHER_HDR_LEN + ARP_SHA)"
proof -
  obtain t1 where send: "send_arp d RTE_ARP_OP_REQUEST src_ip bc dst_ip pool cdq t = Inr t1"
    and poll: "arp_poll d port src_ip src_mac [0..<unat n] (None, Sleep 1 # t1) = Inr (Some mac, t')"
    using assms by (auto simp: arp_round_def trace_simps split: sum.splits)
  from send_arp_extends [OF send] obtain ev0 where ev0: "t1 = ev0 @ t" ..
  from arp_poll_sound [OF poll] obtain ev q bufs b where
    *: "t' = ev @ Sleep 1 # t1" "Rx_Burst port q bufs \<in> set ev" "b \<in> set bufs"
      "arp_accepts d src_mac src_ip b" "mac = ld_mac (pkt b) (ETHER_HDR_LEN + ARP_SHA)" by blast
  have "t' = (ev @ Sleep 1 # ev0) @ t" and "Rx_Burst port q bufs \<in> set (ev @ Sleep 1 # ev0)"
    using * ev0 by simp_all
  with *(3-5) show ?thesis by blast
qed

text \<open>C3. An address the resolver returns was sent in answer to this host: it is the sender
  hardware address of an ARP reply received on the polled port while resolving, addressed at
  link level to this host and naming this host's hardware and protocol address as its target.\<close>

theorem get_dst_mac_sound:
  assumes "get_dst_mac d port src_ip src_mac dst_ip bc pool cdq n t = Some (Inr (mac, t'))"
  shows "\<exists>ev q bufs b. t' = ev @ t \<and> Rx_Burst port q bufs \<in> set ev \<and> b \<in> set bufs \<and>
     rte_is_same_ether_addr d (ld_mac (pkt b) ETH_DST) src_mac \<and>
     is_arp_reply_for d src_mac src_ip (pkt b) \<and> mac = ld_mac (pkt b) (ETHER_HDR_LEN + ARP_SHA)"
proof -
  from get_dst_mac_resolved [OF assms] obtain t1 where
    pend: "(arp_pending d port src_ip src_mac dst_ip bc pool cdq n)\<^sup>*\<^sup>* t t1"
    and round: "arp_round d port src_ip src_mac dst_ip bc pool cdq n t1 = Inr (Some mac, t')" by blast
  from pend have "\<exists>ev. t1 = ev @ t"
    by (induction rule: rtranclp_induct) (fastforce elim!: arp_pending.cases dest: arp_round_extends)+
  then obtain ev0 where ev0: "t1 = ev0 @ t" ..
  from arp_round_sound [OF round] obtain ev q bufs b where
    *: "t' = ev @ t1" "Rx_Burst port q bufs \<in> set ev" "b \<in> set bufs"
      "arp_accepts d src_mac src_ip b" "mac = ld_mac (pkt b) (ETHER_HDR_LEN + ARP_SHA)" by blast
  have "t' = (ev @ ev0) @ t" and "Rx_Burst port q bufs \<in> set (ev @ ev0)"
    using * ev0 by simp_all
  with *(3-5) show ?thesis unfolding arp_accepts_def by blast
qed

lemma arp_example_run:
  "get_dst_mac arp_sim 0 0xC0A80102 (Ether_Addr 2 0 0 0 0 2) 0xC0A80101 broadcast_addr 1 0 1 [] =
     Some (Inr (Ether_Addr 2 0 0 0 0 1,
       snd (projr (arp_round arp_sim 0 0xC0A80102 (Ether_Addr 2 0 0 0 0 2) 0xC0A80101 broadcast_addr 1 0 1 []))))"
proof -
  have ok: "append_ok arp_sim" by (simp add: arp_sim_def)
  have room: "data_room arp_sim a = 1920" for a by (simp add: arp_sim_def sim_def)
  have acc: "arp_accepts arp_sim (Ether_Addr 2 0 0 0 0 2) 0xC0A80102
      (arp_reply_example (Ether_Addr 2 0 0 0 0 1) (Ether_Addr 2 0 0 0 0 2) 0xC0A80102)"
    by (simp add: arp_accepts_def is_arp_reply_for_def arp_reply_example_def Let_def arp_sim_def sim_def cell_simps)
  have rx: "rte_eth_rx_burst arp_sim t p q 32 =
      [arp_reply_example (Ether_Addr 2 0 0 0 0 1) (Ether_Addr 2 0 0 0 0 2) 0xC0A80102]" for t p q
    by (simp add: arp_sim_def sim_def)
  have sha: "ld_mac (pkt (arp_reply_example (Ether_Addr 2 0 0 0 0 1) (Ether_Addr 2 0 0 0 0 2) 0xC0A80102))
      (ETHER_HDR_LEN + ARP_SHA) = Ether_Addr 2 0 0 0 0 1"
    by (simp add: arp_reply_example_def Let_def cell_simps)
  have alloc: "rte_pktmbuf_alloc arp_sim t p = Some (empty_mbuf 0)" for t p
    by (simp add: arp_sim_def sim_def)
  have "\<exists>t'. arp_round arp_sim 0 0xC0A80102 (Ether_Addr 2 0 0 0 0 2) 0xC0A80101 broadcast_addr 1 0 1 [] =
      Inr (Some (Ether_Addr 2 0 0 0 0 1), t')"
    using ok acc sha
    by (simp add: arp_round_def send_arp_def trace_simps alloc prepare_arp_pkt_def room empty_mbuf_def rx arp_burst_eq)
  then show ?thesis by (subst get_dst_mac.simps) auto
qed

theorem get_dst_mac_sound_witness:
  "\<exists>t' q bufs b.
     get_dst_mac arp_sim 0 0xC0A80102 (Ether_Addr 2 0 0 0 0 2) 0xC0A80101 broadcast_addr 1 0 1 [] =
       Some (Inr (Ether_Addr 2 0 0 0 0 1, t')) \<and>
     Rx_Burst 0 q bufs \<in> set t' \<and> b \<in> set bufs \<and>
     Ether_Addr 2 0 0 0 0 1 = ld_mac (pkt b) (ETHER_HDR_LEN + ARP_SHA)"
  using get_dst_mac_sound [OF arp_example_run] arp_example_run by fastforce

theorem get_dst_mac_outcome_witness:
  "\<exists>t' t1. get_dst_mac arp_sim 0 0xC0A80102 (Ether_Addr 2 0 0 0 0 2) 0xC0A80101 broadcast_addr 1 0 1 [] =
       Some (Inr (Ether_Addr 2 0 0 0 0 1, t')) \<and>
     arp_answered arp_sim 0 0xC0A80102 (Ether_Addr 2 0 0 0 0 2) 0xC0A80101 broadcast_addr 1 0 1 t1
       (Ether_Addr 2 0 0 0 0 1) t'"
proof -
  have "append_ok arp_sim" "alloc_ok arp_sim" by (simp_all add: arp_sim_def)
  note outcome = get_dst_mac_outcome [OF this, where port = 0 and src_ip = "0xC0A80102" and src_mac = "Ether_Addr 2 0 0 0 0 2" and
      dst_ip = "0xC0A80101" and bc = broadcast_addr and pool = 1 and cdq = 0 and n = 1 and t = "[]"]
  show ?thesis using outcome unfolding arp_example_run by auto
qed

text \<open>Resolving an address leaks no packet buffer and frees none twice: whatever the device
  and the pool answer, each request buffer is sent or freed and each received buffer is
  freed.\<close>

lemma get_dst_mac_balance:
  assumes "append_ok d" and "tx_ok d"
    and "get_dst_mac d port src_ip src_mac dst_ip bc pool cdq n t = Some (Inr (mac, t'))"
  shows "outstanding t' a = outstanding t a"
proof -
  have pending: "outstanding t1 a = outstanding t a"
    if "(arp_pending d port src_ip src_mac dst_ip bc pool cdq n)\<^sup>*\<^sup>* t t1" for t1
    using that
    by (induction rule: rtranclp_induct) (auto elim!: arp_pending.cases dest: arp_round_balance [OF assms(1,2), where a = a])
  from get_dst_mac_resolved [OF assms(3)] obtain t1 where
    t1: "(arp_pending d port src_ip src_mac dst_ip bc pool cdq n)\<^sup>*\<^sup>* t t1"
    and round: "arp_round d port src_ip src_mac dst_ip bc pool cdq n t1 = Inr (Some mac, t')" by blast
  from arp_round_balance [OF assms(1,2) round] pending [OF t1] show ?thesis by simp
qed

end
