(* ===== verification/Cstring.thy ===== *)
theory Cstring
  imports Prelude
begin

text \<open>
  The functions of the C library the sources apply to strings: \<open>atoi\<close>, \<open>atol\<close>, the decimal
  and hexadecimal conversions of \<open>sscanf\<close>, \<open>strtok\<close> and the unsigned decimal conversion of
  \<open>snprintf\<close>. A C string is its characters before the terminating null byte. C's \<open>int\<close> and
  \<open>long\<close> are 32 and 64 bits wide.
\<close>

section \<open>Characters and digit strings\<close>

definition is_space :: "char \<Rightarrow> bool" where
  "is_space c \<longleftrightarrow> (of_char c :: nat) = 32 \<or> (9 \<le> (of_char c :: nat) \<and> (of_char c :: nat) \<le> 13)"

definition is_digit :: "char \<Rightarrow> bool" where
  "is_digit c \<longleftrightarrow> 48 \<le> (of_char c :: nat) \<and> (of_char c :: nat) \<le> 57"

definition digit_val :: "char \<Rightarrow> nat" where
  "digit_val c = of_char c - 48"

definition digit_char :: "nat \<Rightarrow> char" where
  "digit_char n = char_of (48 + n)"

definition dec_value :: "string \<Rightarrow> nat" where
  "dec_value s = foldl (\<lambda>n c. 10 * n + digit_val c) 0 s"

fun dec_string :: "nat \<Rightarrow> string" where
  "dec_string n = (if n < 10 then [digit_char n] else dec_string (n div 10) @ [digit_char (n mod 10)])"

declare dec_string.simps [simp del]

lemma digit_char_digit [simp]:
  assumes "n < 10"
  shows "is_digit (digit_char n)" and "digit_val (digit_char n) = n"
  using assms by (simp_all add: is_digit_def digit_val_def digit_char_def)

lemma is_digit_not_space [simp]: "is_digit c \<Longrightarrow> \<not> is_space c"
  by (auto simp: is_digit_def is_space_def)

lemma is_digit_not_sign [simp]:
  assumes "is_digit c"
  shows "c \<noteq> CHR ''-''" and "c \<noteq> CHR ''+''" and "c \<noteq> CHR ''.''"
  using assms by (auto simp: is_digit_def)

lemma dec_value_append [simp]: "dec_value (s @ [c]) = 10 * dec_value s + digit_val c"
  by (simp add: dec_value_def)

lemma dec_string_digits: "list_all is_digit (dec_string n)"
proof (induction n rule: dec_string.induct)
  case (1 n)
  then show ?case by (subst dec_string.simps) simp
qed

lemma dec_value_dec_string [simp]: "dec_value (dec_string n) = n"
proof (induction n rule: dec_string.induct)
  case (1 n)
  show ?case
  proof (cases "n < 10")
    case True
    then show ?thesis by (subst dec_string.simps) (simp add: dec_value_def)
  next
    case False
    with "1" have "dec_value (dec_string (n div 10)) = n div 10" by simp
    with False show ?thesis by (subst dec_string.simps) simp
  qed
qed

lemma dec_string_not_Nil [simp]: "dec_string n \<noteq> []"
  by (subst dec_string.simps) simp

lemma dec_string_Cons: "\<exists>c s. dec_string n = c # s \<and> is_digit c"
  using dec_string_digits [of n] by (cases "dec_string n") auto

lemma takeWhile_digits:
  assumes "list_all is_digit ds" and "s = [] \<or> \<not> is_digit (hd s)"
  shows "takeWhile is_digit (ds @ s) = ds" and "dropWhile is_digit (ds @ s) = s"
proof -
  have tail: "takeWhile is_digit s = []" "dropWhile is_digit s = s"
    using assms(2) by (cases s; simp)+
  show "takeWhile is_digit (ds @ s) = ds"
    using assms(1) tail(1) by (simp add: list_all_iff takeWhile_append2)
  show "dropWhile is_digit (ds @ s) = s"
    using assms(1) tail(2) by (simp add: list_all_iff dropWhile_append2)
qed

lemma length_dec_string: "n < 10 ^ k \<Longrightarrow> 0 < k \<Longrightarrow> length (dec_string n) \<le> k"
proof (induction n arbitrary: k rule: dec_string.induct)
  case (1 n)
  show ?case
  proof (cases "n < 10")
    case True
    with "1.prems" show ?thesis by (subst dec_string.simps) simp
  next
    case False
    have "k \<noteq> 1" using False "1.prems"(1) by (cases "k = 1") auto
    with "1.prems"(2) obtain j where j: "k = Suc j" "0 < j"
      by (cases k) auto
    with "1.prems"(1) have "n div 10 < 10 ^ j" by (simp add: less_mult_imp_div_less mult.commute)
    with "1.IH" [OF False] j(2) have "length (dec_string (n div 10)) \<le> j" by blast
    with False j(1) show ?thesis by (subst dec_string.simps) simp
  qed
qed

section \<open>strtol and its callers\<close>

text \<open>The sign of a number and what follows it.\<close>

fun scan_sign :: "string \<Rightarrow> bool \<times> string" where
  "scan_sign [] = (False, [])"
| "scan_sign (c # s) =
     (if c = CHR ''-'' then (True, s) else if c = CHR ''+'' then (False, s) else (False, c # s))"

definition LONG_MAX :: int where "LONG_MAX = 2 ^ 63 - 1"
definition LONG_MIN :: int where "LONG_MIN = - (2 ^ 63)"
definition ULONG_MAX :: int where "ULONG_MAX = 2 ^ 64 - 1"

lemma ULONG_MAX_eq: "ULONG_MAX = 18446744073709551615"
  by (simp add: ULONG_MAX_def)

definition strtol :: "string \<Rightarrow> int" where
  "strtol s =
     (let (neg, s1) = scan_sign (dropWhile is_space s);
          v = int (dec_value (takeWhile is_digit s1));
          v = (if neg then - v else v)
      in max LONG_MIN (min LONG_MAX v))"

definition to_int :: "int \<Rightarrow> int" where
  "to_int v = sint (word_of_int v :: u32)"

definition atol :: "string \<Rightarrow> int" where
  "atol s = strtol s"

definition atoi :: "string \<Rightarrow> int" where
  "atoi s = to_int (strtol s)"

lemma to_int_bounds: "- (2 ^ 31) \<le> to_int v \<and> to_int v < 2 ^ 31"
  using sint_range_size [of "word_of_int v :: u32"] by (simp add: to_int_def word_size)

lemma to_int_id: "- (2 ^ 31) \<le> v \<Longrightarrow> v < 2 ^ 31 \<Longrightarrow> to_int v = v"
  by (simp add: to_int_def sint_sbintrunc' signed_take_bit_int_eq_self)

section \<open>sscanf\<close>

text \<open>The conversion \<open>%hhu\<close>: white space, an optional sign, at least one digit; the value is
  that of \<open>strtoul\<close> (saturating, negated modulo \<open>2 ^ 64\<close>), cut down to one byte.\<close>

definition scan_hhu :: "string \<Rightarrow> (u8 \<times> string) option" where
  "scan_hhu s =
     (let (neg, s1) = scan_sign (dropWhile is_space s);
          ds = takeWhile is_digit s1;
          v = int (dec_value ds);
          v = (if v > ULONG_MAX then ULONG_MAX else if neg then - v else v)
      in if ds = [] then None else Some (word_of_int v, dropWhile is_digit s1))"

text \<open>A literal character of the format.\<close>

fun scan_lit :: "char \<Rightarrow> string \<Rightarrow> string option" where
  "scan_lit c [] = None"
| "scan_lit c (x # s) = (if x = c then Some s else None)"

lemma scan_hhu_dec_string:
  assumes "s = [] \<or> \<not> is_digit (hd s)"
  shows "scan_hhu (dec_string (unat (b :: u8)) @ s) = Some (b, s)"
proof -
  obtain c r where cr: "dec_string (unat b) = c # r" "is_digit c"
    using dec_string_Cons by blast
  have sp: "dropWhile is_space (dec_string (unat b) @ s) = dec_string (unat b) @ s"
    and sg: "scan_sign (dec_string (unat b) @ s) = (False, dec_string (unat b) @ s)"
    using cr by simp_all
  have "unat b < 256" by simp
  then have le: "\<not> int (unat b) > ULONG_MAX" using ULONG_MAX_eq by linarith
  show ?thesis
    using le by (simp add: scan_hhu_def sp sg takeWhile_digits [OF dec_string_digits assms])
qed

section \<open>strtok\<close>

text \<open>
  One call of \<open>strtok\<close> on the rest of the string: leading delimiters are skipped, the token
  runs to the next delimiter, which is consumed. \<open>None\<close> is the null pointer.
\<close>

definition strtok :: "char list \<Rightarrow> string \<Rightarrow> (string \<times> string) option" where
  "strtok delims s =
     (let s1 = dropWhile (\<lambda>c. c \<in> set delims) s;
          tok = takeWhile (\<lambda>c. c \<notin> set delims) s1
      in if s1 = [] then None else Some (tok, drop (Suc (length tok)) s1))"

lemma strtok_token:
  assumes "strtok delims s = Some (tok, rest)"
  shows "tok \<noteq> []" and "list_all (\<lambda>c. c \<notin> set delims) tok" and "length rest < length s"
proof -
  let ?s1 = "dropWhile (\<lambda>c. c \<in> set delims) s"
  have s1: "?s1 \<noteq> []" and tok: "tok = takeWhile (\<lambda>c. c \<notin> set delims) ?s1"
    and rest: "rest = drop (Suc (length tok)) ?s1"
    using assms by (auto simp: strtok_def Let_def split: if_splits)
  have hd: "hd ?s1 \<notin> set delims" using hd_dropWhile [OF s1] by simp
  then show "tok \<noteq> []" using s1 tok by (cases ?s1) auto
  show "list_all (\<lambda>c. c \<notin> set delims) tok"
    unfolding tok list_all_iff by (auto dest: set_takeWhileD)
  have "length ?s1 \<le> length s" by (rule length_dropWhile_le)
  moreover have "0 < length ?s1" using s1 by simp
  ultimately show "length rest < length s" unfolding rest length_drop by linarith
qed

section \<open>Hexadecimal bytes\<close>

definition hex_val :: "char \<Rightarrow> nat option" where
  "hex_val c =
     (let n = (of_char c :: nat) in
      if is_digit c then Some (n - 48)
      else if 97 \<le> n \<and> n \<le> 102 then Some (n - 87)
      else if 65 \<le> n \<and> n \<le> 70 then Some (n - 55)
      else None)"

definition is_xdigit :: "char \<Rightarrow> bool" where
  "is_xdigit c \<longleftrightarrow> hex_val c \<noteq> None"

definition hex_value :: "string \<Rightarrow> nat" where
  "hex_value s = foldl (\<lambda>n c. 16 * n + (case hex_val c of None \<Rightarrow> 0 | Some v \<Rightarrow> v)) 0 s"

text \<open>The conversion \<open>%2hhx\<close>: white space, then a field of at most two characters with an
  optional sign and at least one hexadecimal digit. A field \<open>0x\<close> reads as its digit 0.\<close>

definition scan_2hhx :: "string \<Rightarrow> u8 option" where
  "scan_2hhx s =
     (let (neg, s1) = scan_sign (take 2 (dropWhile is_space s));
          ds = takeWhile is_xdigit s1;
          v = int (hex_value ds)
      in if ds = [] then None else Some (word_of_int (if neg then - v else v)))"

text \<open>The conversion \<open>%d\<close>: like \<open>strtol\<close>, but it needs a digit.\<close>

definition scan_d :: "string \<Rightarrow> int option" where
  "scan_d s =
     (let (neg, s1) = scan_sign (dropWhile is_space s)
      in if takeWhile is_digit s1 = [] then None else Some (to_int (strtol s)))"

end
