(* ===== verification/Fpu.thy ===== *)
theory Fpu
  imports Complex_Main Prelude
begin

text \<open>
  Floating point arithmetic. A C \<open>double\<close> is a real number; the result of an operation is the
  exact result rounded, with the rounding an argument (\<open>rnd\<close> for \<open>double\<close>, \<open>rndf\<close> for
  \<open>float\<close>), as are \<open>log\<close> and \<open>pow\<close> of the mathematics library, whose accuracy is not specified, and the
  reading of a floating point number from text by \<open>atof\<close>, which is taken to be finite.
  Where overflow, underflow or a division by zero can occur (the tables of the Zipf generator, whose
  numbers are never negative) a \<open>double\<close> is of type \<open>dbl\<close>, with infinity and NaN.
  \<open>fpu_ok\<close> states what IEEE 754 and C guarantee and the proofs use; \<open>exact_fpu\<close> is arithmetic
  without rounding.
\<close>

record fpu =
  rnd :: "real \<Rightarrow> real"
  rndf :: "real \<Rightarrow> real"
  c_log :: "real \<Rightarrow> real"
  c_pow :: "real \<Rightarrow> real \<Rightarrow> real"
  c_atof :: "string \<Rightarrow> real"

definition fpu_ok :: "fpu \<Rightarrow> bool" where
  "fpu_ok F \<longleftrightarrow>
     (\<forall>x y. x \<le> y \<longrightarrow> rnd F x \<le> rnd F y) \<and> rnd F 0 = 0 \<and>
     (\<forall>x y. x \<le> y \<longrightarrow> rndf F x \<le> rndf F y) \<and> rndf F 0 = 0 \<and>
     (\<forall>x. rnd F (rnd F x) = rnd F x) \<and> (\<forall>x. rndf F (rndf F x) = rndf F x) \<and>
     (\<forall>x s. 0 < x \<longrightarrow> 0 \<le> c_pow F x s)"

text \<open>Conversion of a floating point number to an integer discards the fraction.\<close>

definition trunc :: "real \<Rightarrow> int" where
  "trunc x = (if 0 \<le> x then \<lfloor>x\<rfloor> else \<lceil>x\<rceil>)"

definition exact_fpu :: fpu where
  "exact_fpu = \<lparr>rnd = (\<lambda>x. x), rndf = (\<lambda>x. x), c_log = ln, c_pow = (\<lambda>x s. x powr s),
     c_atof = (\<lambda>s. if s = ''1.5'' then 1.5 else 0)\<rparr>"

text \<open>Non-negative doubles with infinity and NaN. A result above the largest finite double
  overflows to infinity.\<close>

datatype dbl = Dbl real | Dbl_Inf | Dbl_NaN

definition DBL_MAX :: real where
  "DBL_MAX = (2 - 1 / 2 ^ 52) * 2 ^ 1023"

definition to_dbl :: "real \<Rightarrow> dbl" where
  "to_dbl x = (if x \<le> DBL_MAX then Dbl x else Dbl_Inf)"

fun dbl_add :: "fpu \<Rightarrow> dbl \<Rightarrow> dbl \<Rightarrow> dbl" where
  "dbl_add F (Dbl x) (Dbl y) = to_dbl (rnd F (x + y))"
| "dbl_add F Dbl_NaN b = Dbl_NaN"
| "dbl_add F a Dbl_NaN = Dbl_NaN"
| "dbl_add F a b = Dbl_Inf"

fun dbl_mul :: "fpu \<Rightarrow> dbl \<Rightarrow> dbl \<Rightarrow> dbl" where
  "dbl_mul F (Dbl x) (Dbl y) = to_dbl (rnd F (x * y))"
| "dbl_mul F Dbl_NaN b = Dbl_NaN"
| "dbl_mul F a Dbl_NaN = Dbl_NaN"
| "dbl_mul F Dbl_Inf (Dbl y) = (if y = 0 then Dbl_NaN else Dbl_Inf)"
| "dbl_mul F (Dbl x) Dbl_Inf = (if x = 0 then Dbl_NaN else Dbl_Inf)"
| "dbl_mul F Dbl_Inf Dbl_Inf = Dbl_Inf"

text \<open>\<open>1.0 / a\<close>.\<close>

fun dbl_recip :: "fpu \<Rightarrow> dbl \<Rightarrow> dbl" where
  "dbl_recip F (Dbl x) = (if x = 0 then Dbl_Inf else to_dbl (rnd F (1 / x)))"
| "dbl_recip F Dbl_Inf = Dbl 0"
| "dbl_recip F Dbl_NaN = Dbl_NaN"

text \<open>Conversion to \<open>int\<close>, which is undefined for numbers that do not fit.\<close>

fun int_of_dbl :: "dbl \<Rightarrow> int res" where
  "int_of_dbl (Dbl x) =
     (if INT_MIN \<le> trunc x \<and> trunc x \<le> INT_MAX then Inr (trunc x) else Inl Bad_Conversion)"
| "int_of_dbl Dbl_Inf = Inl Bad_Conversion"
| "int_of_dbl Dbl_NaN = Inl Bad_Conversion"

lemma fpu_okD:
  assumes "fpu_ok F"
  shows "x \<le> y \<Longrightarrow> rnd F x \<le> rnd F y" and "rnd F 0 = 0"
    and "x \<le> y \<Longrightarrow> rndf F x \<le> rndf F y" and "rndf F 0 = 0"
    and "rnd F (rnd F x) = rnd F x" and "rndf F (rndf F x) = rndf F x"
    and "0 < x \<Longrightarrow> 0 \<le> c_pow F x s"
  using assms by (simp_all add: fpu_ok_def)

lemma rnd_nonneg: "fpu_ok F \<Longrightarrow> 0 \<le> x \<Longrightarrow> 0 \<le> rnd F x"
  using fpu_okD(1) [of F 0 x] fpu_okD(2) [of F] by simp

lemma exact_fpu_ok [simp]: "fpu_ok exact_fpu"
  by (simp add: fpu_ok_def exact_fpu_def)

lemma trunc_mono: "0 \<le> x \<Longrightarrow> x \<le> y \<Longrightarrow> trunc x \<le> trunc y"
  by (simp add: trunc_def floor_mono)

lemma trunc_of_int [simp]: "trunc (of_int k) = k"
  by (simp add: trunc_def)

lemma trunc_0 [simp]: "trunc 0 = 0"
  by (simp add: trunc_def)

lemma trunc_nonneg: "0 \<le> x \<Longrightarrow> 0 \<le> trunc x"
  by (simp add: trunc_def)

lemma int_of_dbl_Inr: "int_of_dbl a = Inr k \<longleftrightarrow> (\<exists>x. a = Dbl x \<and> k = trunc x \<and> INT_MIN \<le> k \<and> k \<le> INT_MAX)"
  by (cases a) auto

text \<open>Operations with a finite result have finite operands.\<close>

lemma to_dbl_eq_Dbl: "to_dbl x = Dbl y \<longleftrightarrow> x = y \<and> x \<le> DBL_MAX"
  by (auto simp: to_dbl_def)

lemma dbl_add_eq_Dbl: "dbl_add F a b = Dbl z \<longleftrightarrow> (\<exists>x y. a = Dbl x \<and> b = Dbl y \<and> z = rnd F (x + y) \<and> z \<le> DBL_MAX)"
  by (cases a; cases b) (auto simp: to_dbl_eq_Dbl)

lemma dbl_mul_eq_Dbl: "dbl_mul F a b = Dbl z \<longleftrightarrow> (\<exists>x y. a = Dbl x \<and> b = Dbl y \<and> z = rnd F (x * y) \<and> z \<le> DBL_MAX)"
  by (cases a; cases b) (auto simp: to_dbl_eq_Dbl)

text \<open>The operations keep numbers non-negative.\<close>

fun dbl_nonneg :: "dbl \<Rightarrow> bool" where
  "dbl_nonneg (Dbl x) = (0 \<le> x)"
| "dbl_nonneg _ = True"

lemma dbl_nonneg_to_dbl: "0 \<le> x \<Longrightarrow> dbl_nonneg (to_dbl x)"
  by (simp add: to_dbl_def)

lemma dbl_nonneg_ops:
  assumes "fpu_ok F"
  shows "dbl_nonneg a \<Longrightarrow> dbl_nonneg b \<Longrightarrow> dbl_nonneg (dbl_add F a b)"
    and "dbl_nonneg a \<Longrightarrow> dbl_nonneg b \<Longrightarrow> dbl_nonneg (dbl_mul F a b)"
    and "dbl_nonneg a \<Longrightarrow> dbl_nonneg (dbl_recip F a)"
  using assms by (cases a; cases b; simp add: dbl_nonneg_to_dbl rnd_nonneg)+

lemma DBL_MAX_large: "x \<le> 2 ^ 64 \<Longrightarrow> x \<le> DBL_MAX"
  by (erule order.trans) (simp add: DBL_MAX_def)

end
