(* ===== verification/Exp.thy ===== *)
theory Exp
  imports Arp Cstring Fpu
begin

text \<open>
  The helpers of \<open>utils/exp.c\<close> and \<open>include/exp.h\<close>: IP addresses as text, the check every
  received packet passes first (\<open>check_eth_hdr\<close>, which also answers ARP requests), the busy wait
  \<open>apply_delay_cycles\<close>, \<open>wait\<close>, and the per-worker \<open>struct context\<close>. The lemmas show the round trip of
  addresses through text, the exact verdict of the check and the reply it sends, and that
  neither loses a buffer.
\<close>

section \<open>The worker's context\<close>

datatype mode = mode_undefined | mode_client | mode_server | mode_latency_clinet

datatype dist = DIST_UNIFORM | DIST_ZIPF

text \<open>\<open>struct context\<close>. The output stream \<open>fp\<close> is left out; arrays are lists.\<close>

record cntx =
  cx_mode :: mode
  cx_rx_mem_pool :: mempool
  cx_tx_mem_pool :: mempool
  cx_worker_id :: u32
  cx_dpdk_port_id :: u32
  cx_default_qid :: u16
  cx_my_eth :: ether_addr
  cx_src_ip :: u32
  cx_src_port :: u16
  cx_count_queues :: u32
  cx_use_vlan :: bool
  cx_bidi :: bool
  cx_do_arp :: bool
  cx_delay_us :: u32
  cx_delay_cycles :: u64
  cx_managed_queues :: "u32 list"
  cx_duration :: int
  cx_dst_ips :: "u32 list"
  cx_count_dst_ip :: int
  cx_dst_port :: u16
  cx_payload_length :: int
  cx_running :: bool
  cx_count_flow :: u32
  cx_base_port_number :: u32
  cx_destination_distribution :: dist
  cx_queue_selection_distribution :: dist
  cx_rate_limit :: bool
  cx_rate :: u64
  cx_batch :: u16

definition broadcast_mac :: ether_addr where
  "broadcast_mac = Ether_Addr 0xFF 0xFF 0xFF 0xFF 0xFF 0xFF"

section \<open>Addresses as text\<close>

definition MAKE_IP_ADDR :: "u8 \<Rightarrow> u8 \<Rightarrow> u8 \<Rightarrow> u8 \<Rightarrow> u32" where
  "MAKE_IP_ADDR a b c d =
     push_bit 24 (ucast a) OR push_bit 16 (ucast b) OR push_bit 8 (ucast c) OR ucast d"

text \<open>\<open>sscanf(str, "%hhu.%hhu.%hhu.%hhu", ...)\<close>: the four bytes if all four conversions
  succeed.\<close>

definition scan_dotted :: "string \<Rightarrow> (u8 \<times> u8 \<times> u8 \<times> u8) option" where
  "scan_dotted s =
     Option.bind (scan_hhu s) (\<lambda>(a, s).
     Option.bind (scan_lit CHR ''.'' s) (\<lambda>s.
     Option.bind (scan_hhu s) (\<lambda>(b, s).
     Option.bind (scan_lit CHR ''.'' s) (\<lambda>s.
     Option.bind (scan_hhu s) (\<lambda>(c, s).
     Option.bind (scan_lit CHR ''.'' s) (\<lambda>s.
     Option.bind (scan_hhu s) (\<lambda>(d, s). Some (a, b, c, d))))))))"

text \<open>\<open>str_to_ip\<close>: \<open>None\<close> is the return value \<open>-1\<close>, which leaves the address unset.\<close>

definition str_to_ip :: "string \<Rightarrow> u32 option" where
  "str_to_ip str =
     (case scan_dotted str of
        None \<Rightarrow> None
      | Some (a, b, c, d) \<Rightarrow> Some (MAKE_IP_ADDR a b c d))"

text \<open>Byte \<open>i\<close> of an address in memory, on a little-endian host.\<close>

definition addr_byte :: "u32 \<Rightarrow> nat \<Rightarrow> u8" where
  "addr_byte addr i = ucast (drop_bit (8 * i) addr)"

definition ip_to_str :: "u32 \<Rightarrow> nat \<Rightarrow> string" where
  "ip_to_str addr sz =
     take (sz - 1)
       (dec_string (unat (addr_byte addr 3)) @ ''.'' @ dec_string (unat (addr_byte addr 2)) @ ''.'' @
        dec_string (unat (addr_byte addr 1)) @ ''.'' @ dec_string (unat (addr_byte addr 0)))"

section \<open>The check of a received packet\<close>

definition check_eth_hdr ::
  "dpdk \<Rightarrow> u32 \<Rightarrow> ether_addr \<Rightarrow> mbuf \<Rightarrow> mempool \<Rightarrow> u8 \<Rightarrow> trace \<Rightarrow> (bool \<times> trace) res" where
  "check_eth_hdr d my_ip host_mac buf tx_mbuf_pool cdq t =
     (let f = pkt buf in
      if \<not> rte_is_same_ether_addr d (ld_mac f ETH_DST) host_mac \<and>
         \<not> rte_is_broadcast_ether_addr d (ld_mac f ETH_DST)
      then Inr (False, t)
      else if rte_be_to_cpu_16 d (ld16 f ETH_TYPE) = RTE_ETHER_TYPE_ARP
      then if ld16 f (ETHER_HDR_LEN + ARP_OPCODE) = rte_cpu_to_be_16 d RTE_ARP_OP_REQUEST \<and>
              ld32 f (ETHER_HDR_LEN + ARP_TIP) = rte_cpu_to_be_32 d my_ip
           then case send_arp d RTE_ARP_OP_REPLY my_ip (ld_mac f (ETHER_HDR_LEN + ARP_SHA))
                       (rte_be_to_cpu_32 d (ld32 f (ETHER_HDR_LEN + ARP_SIP))) tx_mbuf_pool cdq t of
                  Inl e \<Rightarrow> Inl e
                | Inr t' \<Rightarrow> Inr (False, t')
           else Inr (False, t)
      else Inr (True, t))"

section \<open>Busy waiting\<close>

text \<open>The loop \<open>while (now < end)\<close>. It may spin for ever: the value \<open>None\<close>.\<close>

partial_function (option) delay_spin :: "dpdk \<Rightarrow> u64 \<Rightarrow> u64 \<Rightarrow> trace \<Rightarrow> trace option" where
  "delay_spin d end_ts now t =
     (if now < end_ts then let (now, t) = tsc_cycles d t in delay_spin d end_ts now t else Some t)"

definition apply_delay_cycles :: "dpdk \<Rightarrow> u64 \<Rightarrow> u16 \<Rightarrow> trace \<Rightarrow> trace option" where
  "apply_delay_cycles d delay_cycles m t =
     (let (now, t) = tsc_cycles d t;
          (e, t) = tsc_cycles d t
      in delay_spin d (e + delay_cycles * ucast m) now t)"

text \<open>\<open>wait\<close>: the elapsed time is computed in \<open>double\<close> and converted back; it is below \<open>2 ^ 64\<close>
  nanoseconds, some 580 years.\<close>

definition wait_elapsed :: "dpdk \<Rightarrow> fpu \<Rightarrow> u64 \<Rightarrow> u64 \<Rightarrow> u64" where
  "wait_elapsed d F start now =
     word_of_int (trunc (rnd F (rnd F (real (unat (now - start))) * rnd F (1000000000 / rnd F (real (unat (rte_get_timer_hz d)))))))"

partial_function (option) wait_spin :: "dpdk \<Rightarrow> fpu \<Rightarrow> u64 \<Rightarrow> u64 \<Rightarrow> u64 \<Rightarrow> trace \<Rightarrow> trace option" where
  "wait_spin d F ns start elapsed t =
     (if elapsed < ns
      then let (now, t) = timer_cycles d t in wait_spin d F ns start (wait_elapsed d F start now) t
      else Some t)"

definition wait_ns :: "dpdk \<Rightarrow> fpu \<Rightarrow> u64 \<Rightarrow> trace \<Rightarrow> trace option" where
  "wait_ns d F ns t =
     (let (start, t) = timer_cycles d t
      in wait_spin d F ns start (wait_elapsed d F start start) t)"

text \<open>The trace after \<open>n\<close> more readings of the time stamp counter, and of the timer.\<close>

fun tsc_reads :: "dpdk \<Rightarrow> nat \<Rightarrow> trace \<Rightarrow> trace" where
  "tsc_reads d 0 t = t"
| "tsc_reads d (Suc n) t = tsc_reads d n (snd (tsc_cycles d t))"

fun timer_reads :: "dpdk \<Rightarrow> nat \<Rightarrow> trace \<Rightarrow> trace" where
  "timer_reads d 0 t = t"
| "timer_reads d (Suc n) t = timer_reads d n (snd (timer_cycles d t))"

section \<open>Round trip of addresses through text\<close>

lemma bytes_of_addr:
  "MAKE_IP_ADDR (addr_byte x 3) (addr_byte x 2) (addr_byte x 1) (addr_byte x 0) = x"
proof (rule bit_word_eqI)
  fix n :: nat
  assume "n < LENGTH(32)"
  then have n: "n < 32" by simp
  consider "n < 8" | "8 \<le> n" "n < 16" | "16 \<le> n" "n < 24" | "24 \<le> n" by linarith
  then show "bit (MAKE_IP_ADDR (addr_byte x 3) (addr_byte x 2) (addr_byte x 1) (addr_byte x 0)) n = bit x n"
    using n by cases
      (auto simp: MAKE_IP_ADDR_def addr_byte_def bit_simps)
qed

lemma scan_dotted_print:
  "scan_dotted (dec_string (unat a) @ ''.'' @ dec_string (unat b) @ ''.'' @
     dec_string (unat c) @ ''.'' @ dec_string (unat d)) = Some (a, b, c, d)"
proof -
  have dot: "\<not> is_digit (CHR ''.'')" by (simp add: is_digit_def)
  have last: "scan_hhu (dec_string (unat d)) = Some (d, [])"
    using scan_hhu_dec_string [of "[]" d] by simp
  show ?thesis
    by (simp add: scan_dotted_def scan_hhu_dec_string dot last)
qed

lemma length_print_bytes:
  "length (dec_string (unat (a :: u8))) \<le> 3"
proof (rule length_dec_string)
  show "unat a < 10 ^ 3" using unat_bound(1) [of a] by (rule order.strict_trans) simp
qed simp

text \<open>C31. Printing an IPv4 address with \<open>ip_to_str\<close> into a buffer of at least 16 bytes and
  reading the text with \<open>str_to_ip\<close> gives the address back, for every address.\<close>

theorem str_to_ip_ip_to_str:
  assumes "16 \<le> sz"
  shows "str_to_ip (ip_to_str addr sz) = Some addr"
proof -
  let ?s = "dec_string (unat (addr_byte addr 3)) @ ''.'' @ dec_string (unat (addr_byte addr 2)) @ ''.'' @
        dec_string (unat (addr_byte addr 1)) @ ''.'' @ dec_string (unat (addr_byte addr 0))"
  have "length ?s \<le> 15"
    using length_print_bytes [of "addr_byte addr 0"] length_print_bytes [of "addr_byte addr 1"]
      length_print_bytes [of "addr_byte addr 2"] length_print_bytes [of "addr_byte addr 3"] by simp
  with assms have "ip_to_str addr sz = ?s" by (simp add: ip_to_str_def)
  then show ?thesis
    by (simp only: str_to_ip_def scan_dotted_print option.case prod.case bytes_of_addr)
qed

theorem str_to_ip_ip_to_str_witness: "str_to_ip (ip_to_str 0xC0A80102 20) = Some 0xC0A80102"
  using str_to_ip_ip_to_str [of 20 "0xC0A80102"] by simp

section \<open>The verdict of the check\<close>

lemma check_eth_hdr_balance:
  assumes "append_ok d" and "tx_ok d"
    and "check_eth_hdr d my_ip host_mac buf pool cdq t = Inr (v, t')"
  shows "outstanding t' a = outstanding t a"
  using assms(3) send_arp_balance [OF assms(1,2), where a = a]
  by (auto simp: check_eth_hdr_def Let_def split: if_splits sum.splits)

text \<open>Is an Ethernet frame addressed to this host, and is it ARP?\<close>

lemma check_eth_hdr_valid:
  assumes "ether_ok d"
  shows "check_eth_hdr d my_ip host_mac buf pool cdq t = Inr (True, t') \<longleftrightarrow>
     t' = t \<and> ld_mac (pkt buf) ETH_DST \<in> {host_mac, broadcast_addr} \<and>
     rte_be_to_cpu_16 d (ld16 (pkt buf) ETH_TYPE) \<noteq> RTE_ETHER_TYPE_ARP"
  using assms by (auto simp: check_eth_hdr_def Let_def split: sum.splits)

text \<open>C16. \<open>check_eth_hdr\<close> lets a packet through exactly when it is addressed to this host or
  broadcast and is not ARP, and then does nothing else. An ARP request for this host's IP
  address that reaches it is answered, if the pool has a buffer: the one packet handed to the
  device is an ARP reply from this host to the requester, naming the requester's addresses as
  the target; the buffer is freed if the device does not take it. No other packet makes it
  send.\<close>

theorem check_eth_hdr_verdict:
  assumes "byteorder_ok d" and "ether_ok d" and "append_ok d"
    and "rte_pktmbuf_alloc d t pool = Some m" and "data_len m = 0" and "42 \<le> data_room d (buf_addr m)"
  shows "let f = pkt buf;
      for_us = ld_mac f ETH_DST \<in> {host_mac, broadcast_addr};
      arp = (rte_be_to_cpu_16 d (ld16 f ETH_TYPE) = RTE_ETHER_TYPE_ARP);
      asks_us = (rte_be_to_cpu_16 d (ld16 f (ETHER_HDR_LEN + ARP_OPCODE)) = RTE_ARP_OP_REQUEST \<and>
                 rte_be_to_cpu_32 d (ld32 f (ETHER_HDR_LEN + ARP_TIP)) = my_ip)
    in if for_us \<and> arp \<and> asks_us
       then \<exists>b n. check_eth_hdr d my_ip host_mac buf pool cdq t = Inr (False, sent_once cdq m b n t) \<and>
              arp_packet d RTE_ARP_OP_REPLY (rte_eth_macaddr_get d 0) my_ip
                (ld_mac f (ETHER_HDR_LEN + ARP_SHA)) (rte_be_to_cpu_32 d (ld32 f (ETHER_HDR_LEN + ARP_SIP))) b
       else check_eth_hdr d my_ip host_mac buf pool cdq t = Inr (for_us \<and> \<not> arp, t)"
proof -
  have op: "rte_be_to_cpu_16 d x = y \<longleftrightarrow> x = rte_cpu_to_be_16 d y" for x y
    using assms(1) by (metis byteorder_okD(1,2))
  obtain b n where b: "send_arp d RTE_ARP_OP_REPLY my_ip (ld_mac (pkt buf) (ETHER_HDR_LEN + ARP_SHA))
       (rte_be_to_cpu_32 d (ld32 (pkt buf) (ETHER_HDR_LEN + ARP_SIP))) pool cdq t = Inr (sent_once cdq m b n t)"
    and reply: "arp_packet d RTE_ARP_OP_REPLY (rte_eth_macaddr_get d 0) my_ip
       (ld_mac (pkt buf) (ETHER_HDR_LEN + ARP_SHA))
       (rte_be_to_cpu_32 d (ld32 (pkt buf) (ETHER_HDR_LEN + ARP_SIP))) b"
    using send_arp_sends [OF assms(3-6)] by blast
  have answered: "\<exists>b' n'. sent_once cdq m b n t = sent_once cdq m b' n' t \<and>
      arp_packet d RTE_ARP_OP_REPLY (rte_eth_macaddr_get d 0) my_ip
        (ld_mac (pkt buf) (ETHER_HDR_LEN + ARP_SHA))
        (rte_be_to_cpu_32 d (ld32 (pkt buf) (ETHER_HDR_LEN + ARP_SIP))) b'"
    using reply by blast
  show ?thesis
    using assms(1-2) b answered by (simp add: check_eth_hdr_def Let_def op be_to_cpu_32_eq_iff)
qed

theorem check_eth_hdr_verdict_witness:
  "\<exists>b n. check_eth_hdr arp_sim 0xC0A80102 (Ether_Addr 2 0 0 0 0 2) (arp_request_example 0xC0A80102) 1 0 [] =
      Inr (False, sent_once 0 (empty_mbuf 0) b n []) \<and>
    arp_packet arp_sim RTE_ARP_OP_REPLY (Ether_Addr 2 0 0 0 0 2) 0xC0A80102 (Ether_Addr 2 0 0 0 0 1) 0xC0A80101 b"
proof -
  have ok: "byteorder_ok arp_sim" "ether_ok arp_sim" "append_ok arp_sim"
    and alloc: "rte_pktmbuf_alloc arp_sim [] 1 = Some (empty_mbuf 0)" "data_len (empty_mbuf 0) = 0"
      "42 \<le> data_room arp_sim (buf_addr (empty_mbuf 0))"
    by (simp_all add: arp_sim_def) (simp_all add: sim_def empty_mbuf_def)
  have conv: "rte_be_to_cpu_16 arp_sim = bswap16" "rte_be_to_cpu_32 arp_sim = bswap32"
    "rte_eth_macaddr_get arp_sim 0 = Ether_Addr 2 0 0 0 0 2"
    by (simp_all add: arp_sim_def sim_def)
  show ?thesis
    using check_eth_hdr_verdict [OF ok alloc, of "arp_request_example 0xC0A80102" "Ether_Addr 2 0 0 0 0 2" "0xC0A80102" 0]
    by (simp add: Let_def conv arp_request_example_def cell_simps)
qed

section \<open>The busy wait ends when the clock does\<close>

lemma delay_spin_zero: "end_ts \<le> now \<Longrightarrow> delay_spin d end_ts now t = Some t"
  by (subst delay_spin.simps) (simp add: not_less [symmetric])

lemma delay_spin_reaches:
  "end_ts \<le> rte_get_tsc_cycles d (tsc_reads d n t) \<Longrightarrow> \<exists>k \<le> Suc n. delay_spin d end_ts now t = Some (tsc_reads d k t)"
proof (induction n arbitrary: now t)
  case 0
  show ?case
  proof (cases "now < end_ts")
    case True
    then have "delay_spin d end_ts now t = Some (tsc_reads d 1 t)"
      using 0 by (subst delay_spin.simps) (simp add: trace_simps delay_spin_zero)
    then show ?thesis by (intro exI [of _ 1]) simp
  next
    case False
    then have "delay_spin d end_ts now t = Some (tsc_reads d 0 t)"
      by (subst delay_spin.simps) simp
    then show ?thesis by (intro exI [of _ 0]) simp
  qed
next
  case (Suc n)
  show ?case
  proof (cases "now < end_ts")
    case True
    let ?c = "tsc_cycles d t"
    obtain k where k: "k \<le> Suc n" "delay_spin d end_ts (fst ?c) (snd ?c) = Some (tsc_reads d k (snd ?c))"
      using Suc.IH [of "snd ?c" "fst ?c"] Suc.prems by auto
    then have "delay_spin d end_ts now t = Some (tsc_reads d (Suc k) t)"
      using True by (subst delay_spin.simps) (simp add: case_prod_beta)
    with k(1) show ?thesis by blast
  next
    case False
    then have "delay_spin d end_ts now t = Some (tsc_reads d 0 t)"
      by (subst delay_spin.simps) simp
    then show ?thesis by (intro exI [of _ 0]) simp
  qed
qed

lemma delay_spin_balance:
  assumes "delay_spin d end_ts now t = Some t'"
  shows "outstanding t' a = outstanding t a"
proof (rule delay_spin.raw_induct [OF _ assms, where P = "\<lambda>d end_ts now t t'. outstanding t' a = outstanding t a"])
  fix f and d :: dpdk and end_ts now :: u64 and t t' :: trace
  assume IH: "\<And>d end_ts now t t'. f d end_ts now t = Some t' \<Longrightarrow> outstanding t' a = outstanding t a"
    and eq: "(if now < end_ts then let (now, t) = tsc_cycles d t in f d end_ts now t else Some t) = Some t'"
  show "outstanding t' a = outstanding t a"
    using eq by (auto simp: trace_simps dest: IH split: if_splits)
qed

lemma apply_delay_cycles_balance:
  "apply_delay_cycles d delay m t = Some t' \<Longrightarrow> outstanding t' a = outstanding t a"
  by (auto simp: apply_delay_cycles_def trace_simps dest!: delay_spin_balance [where a = a])

lemma wait_spin_over: "\<not> elapsed < ns \<Longrightarrow> wait_spin d F ns start elapsed t = Some t"
  by (subst wait_spin.simps) simp

lemma wait_spin_reaches:
  "ns \<le> wait_elapsed d F start (rte_get_timer_cycles d (timer_reads d n t)) \<Longrightarrow>
     \<exists>k \<le> Suc n. wait_spin d F ns start elapsed t = Some (timer_reads d k t)"
proof (induction n arbitrary: elapsed t)
  case 0
  show ?case
  proof (cases "elapsed < ns")
    case True
    with 0 have "wait_spin d F ns start elapsed t = Some (timer_reads d 1 t)"
      by (subst wait_spin.simps) (simp add: trace_simps not_less wait_spin_over)
    then show ?thesis by (intro exI [of _ 1]) simp
  next
    case False
    then show ?thesis by (intro exI [of _ 0]) (simp add: wait_spin_over)
  qed
next
  case (Suc n)
  show ?case
  proof (cases "elapsed < ns")
    case True
    let ?c = "timer_cycles d t"
    obtain k where k: "k \<le> Suc n" "wait_spin d F ns start (wait_elapsed d F start (fst ?c)) (snd ?c) = Some (timer_reads d k (snd ?c))"
      using Suc.IH [of "snd ?c"] Suc.prems by auto
    then have "wait_spin d F ns start elapsed t = Some (timer_reads d (Suc k) t)"
      using True by (subst wait_spin.simps) (simp add: case_prod_beta)
    with k(1) show ?thesis by blast
  next
    case False
    then show ?thesis by (intro exI [of _ 0]) (simp add: wait_spin_over)
  qed
qed

text \<open>\<open>wait\<close> returns on every clock that reaches the time, with as many readings as that takes.\<close>

lemma wait_ns_returns:
  assumes "ns \<le> wait_elapsed d F (rte_get_timer_cycles d t) (rte_get_timer_cycles d (timer_reads d (Suc n) t))"
  shows "\<exists>k \<le> n + 2. wait_ns d F ns t = Some (timer_reads d k t)"
proof -
  let ?c = "timer_cycles d t"
  obtain k where "k \<le> Suc n" "wait_ns d F ns t = Some (timer_reads d k (snd ?c))"
    using wait_spin_reaches [of ns d F "fst ?c" n "snd ?c" "wait_elapsed d F (fst ?c) (fst ?c)"] assms
    by (auto simp: wait_ns_def trace_simps)
  then show ?thesis by (intro exI [of _ "Suc k"]) simp
qed

end
