(* ===== verification/Config.thy ===== *)
theory Config
  imports Exp Fpu
begin

text \<open>
  The command line, from \<open>config.c\<close> and \<open>config.h\<close>: the table of options, one step per option as
  in the \<open>switch\<close> of \<open>parse_args\<close>, the two structured arguments, the defaults, and the checks at
  the end. \<open>getopt_long\<close> of the C library is modelled on the table (permutation, \<open>--name=value\<close>,
  unambiguous abbreviations); \<open>rte_eal_init\<close> is an argument. Memory allocation is taken to
  succeed, and printing the usage text has no effect.

  \<open>struct app_config\<close> holds a union: \<open>server.server_delay\<close> occupies the first four bytes of
  \<open>client\<close>, of which the first two are \<open>client.client_port\<close>. The word \<open>cf_head\<close> is these four
  bytes.
\<close>

section \<open>Model\<close>

subsection \<open>The configuration\<close>

abbreviation (input) "MAX_SERVER_IP_DEST \<equiv> 32 :: nat"

record app_config =
  cf_bidi :: bool
  cf_use_vlan :: bool
  cf_do_arp :: bool
  cf_source_ip :: u32
  cf_num_queues :: u16
  cf_mode :: mode
  cf_payload_size :: u32
  cf_server_port :: u16
  cf_head :: u32
  cf_count_server_ips :: u32
  cf_server_ips :: "nat \<rightharpoonup> u32"
  cf_count_flow :: int
  cf_duration :: int
  cf_rate_limit :: bool
  cf_rate :: u64
  cf_delay_cycles :: u64
  cf_batch :: u16
  cf_hdr_encp_sz :: u16
  cf_select_src_ip :: bool
  cf_unique_client_addresses :: u32
  cf_unique_client_ports :: u32
  cf_zipf_arg :: real
  cf_add_katran_opt :: u32
  cf_max_num :: int
  cf_dest_mac :: "u8 list"

definition cf_client_port :: "app_config \<Rightarrow> u16" where
  "cf_client_port c = ucast (cf_head c)"

definition set_client_port :: "u16 \<Rightarrow> app_config \<Rightarrow> app_config" where
  "set_client_port p c = c\<lparr>cf_head := (cf_head c AND 0xFFFF0000) OR ucast p\<rparr>"

definition cf_server_delay :: "app_config \<Rightarrow> u32" where
  "cf_server_delay c = cf_head c"

definition set_server_delay :: "u32 \<Rightarrow> app_config \<Rightarrow> app_config" where
  "set_server_delay v c = c\<lparr>cf_head := v\<rparr>"

text \<open>After \<open>memset\<close> and the default values. Entries of \<open>server_ips\<close> are uninitialised memory.\<close>

definition zero_config :: app_config where
  "zero_config = \<lparr>cf_bidi = False, cf_use_vlan = False, cf_do_arp = False, cf_source_ip = 0, cf_num_queues = 0,
     cf_mode = mode_undefined, cf_payload_size = 0, cf_server_port = 0, cf_head = 0, cf_count_server_ips = 0,
     cf_server_ips = Map.empty, cf_count_flow = 0, cf_duration = 0, cf_rate_limit = False, cf_rate = 0,
     cf_delay_cycles = 0, cf_batch = 0, cf_hdr_encp_sz = 0, cf_select_src_ip = False,
     cf_unique_client_addresses = 0, cf_unique_client_ports = 0, cf_zipf_arg = 0, cf_add_katran_opt = 0,
     cf_max_num = 0, cf_dest_mac = [0, 0, 0, 0, 0, 0]\<rparr>"

definition default_config :: app_config where
  "default_config = set_client_port 3000 (zero_config
     \<lparr>cf_bidi := True, cf_use_vlan := False, cf_do_arp := True, cf_payload_size := 64,
      cf_server_port := 8080, cf_count_server_ips := 0, cf_num_queues := 1, cf_batch := 0,
      cf_count_flow := 1, cf_hdr_encp_sz := 0, cf_select_src_ip := False,
      cf_unique_client_addresses := 1, cf_unique_client_ports := 1, cf_max_num := 2000000,
      cf_add_katran_opt := 0\<rparr>)"

subsection \<open>Options\<close>

datatype opts =
    HELP | NUM_QUEUE | CLIENT | SERVER | LATENCY_CLIENT | IP_LOCAL | IP_DEST | PORT | DEST_PORT
  | SERVER_PORT | NUM_FLOW | DURATION | DELAY | RATE | BATCH_SIZE | PAYLOAD_LENGTH | UNIDIR
  | NO_ARP | HDR_ENCP_SZ | OPT_ZIPF_CLIENT_ADDR | MAX_NUM | ADD_KATRAN_OPT

text \<open>Name, whether an argument is required, and value.\<close>

definition long_opts :: "(string \<times> bool \<times> opts) list" where
  "long_opts =
    [(''help'',             False, HELP),
     (''client'',           False, CLIENT),
     (''server'',           False, SERVER),
     (''latency-client'',   False, LATENCY_CLIENT),
     (''ip-local'',         True,  IP_LOCAL),
     (''ip-dest'',          True,  IP_DEST),
     (''port'',             True,  PORT),
     (''port-dest'',        True,  DEST_PORT),
     (''num-flow'',         True,  NUM_FLOW),
     (''duration'',         True,  DURATION),
     (''delay'',            True,  DELAY),
     (''rate'',             True,  RATE),
     (''batch'',            True,  BATCH_SIZE),
     (''payload'',          True,  PAYLOAD_LENGTH),
     (''unidir'',           False, UNIDIR),
     (''no-arp'',           True,  NO_ARP),
     (''num-queue'',        True,  NUM_QUEUE),
     (''hdr-encap-sz'',     True,  HDR_ENCP_SZ),
     (''zipf-client-addr'', True,  OPT_ZIPF_CLIENT_ADDR),
     (''max-num'',          True,  MAX_NUM),
     (''add-katran-opt'',   True,  ADD_KATRAN_OPT)]"

text \<open>An exact name, or else the only option the name abbreviates.\<close>

definition find_long :: "string \<Rightarrow> (bool \<times> opts) option" where
  "find_long name =
     (case filter (\<lambda>(n, _). n = name) long_opts of
        (n, r) # _ \<Rightarrow> Some r
      | [] \<Rightarrow> (case filter (\<lambda>(n, _). take (length name) n = name) long_opts of
                 [(n, r)] \<Rightarrow> Some r
               | _ \<Rightarrow> None))"

text \<open>\<open>Opt\<close> carries \<open>optarg\<close>; \<open>Bad_Option\<close> is the return value \<open>'?'\<close>.\<close>

datatype opt_result = Opt opts string | Bad_Option | End_Of_Options

fun getopt_long :: "string list \<Rightarrow> opt_result \<times> string list" where
  "getopt_long [] = (End_Of_Options, [])"
| "getopt_long (a # args) =
     (if a = ''--'' then (End_Of_Options, args)
      else if take 2 a = ''--''
      then let name = takeWhile (\<lambda>c. c \<noteq> CHR ''='') (drop 2 a);
               val = drop (2 + length name) a
           in case find_long name of
                None \<Rightarrow> (Bad_Option, args)
              | Some (True, opt) \<Rightarrow>
                  (if val \<noteq> [] then (Opt opt (tl val), args)
                   else case args of [] \<Rightarrow> (Bad_Option, []) | v # args \<Rightarrow> (Opt opt v, args))
              | Some (False, opt) \<Rightarrow> (if val \<noteq> [] then (Bad_Option, args) else (Opt opt [], args))
      else if take 1 a = ''-'' \<and> a \<noteq> ''-'' then (Bad_Option, args)
      else getopt_long args)"

subsection \<open>Structured arguments\<close>

definition EXIT_SUCCESS :: int where "EXIT_SUCCESS = 0"
definition EXIT_FAILURE :: int where "EXIT_FAILURE = 1"

definition parse_zipf_client_addr_arg :: "fpu \<Rightarrow> string \<Rightarrow> app_config \<Rightarrow> app_config res" where
  "parse_zipf_client_addr_arg F optarg c =
     (let bad = Inl (Rte_Exit EXIT_FAILURE ''Failed to parse arguments'');
          c = c\<lparr>cf_select_src_ip := True\<rparr>
      in case strtok ''/'' optarg of
           None \<Rightarrow> bad
         | Some (tmp, rest) \<Rightarrow>
             let c = c\<lparr>cf_unique_client_addresses := word_of_int (atoi tmp)\<rparr>
             in case strtok ''/'' rest of
                  None \<Rightarrow> bad
                | Some (tmp, rest) \<Rightarrow>
                    let c = c\<lparr>cf_unique_client_ports := word_of_int (atoi tmp)\<rparr>
                    in case strtok [] rest of
                         None \<Rightarrow> bad
                       | Some (tmp, rest) \<Rightarrow>
                           let c = c\<lparr>cf_zipf_arg := rndf F (c_atof F tmp)\<rparr>
                           in if cf_unique_client_ports c > cf_unique_client_addresses c then bad
                              else Inr c)"

text \<open>\<open>sscanf(tmp, "%2hhx", &config.dest_mac[i])\<close> leaves the byte alone when nothing matches.\<close>

definition scan_mac_byte :: "string \<Rightarrow> nat \<Rightarrow> u8 list \<Rightarrow> u8 list" where
  "scan_mac_byte tmp i mac = (case scan_2hhx tmp of None \<Rightarrow> mac | Some b \<Rightarrow> mac[i := b])"

text \<open>The loop over the first five bytes, \<open>n\<close> rounds from byte \<open>i\<close> on.\<close>

fun no_arp_loop :: "nat \<Rightarrow> nat \<Rightarrow> string \<Rightarrow> u8 list \<Rightarrow> (string \<times> u8 list) res" where
  "no_arp_loop i 0 input mac = Inr (input, mac)"
| "no_arp_loop i (Suc n) input mac =
     (case strtok '':'' input of
        None \<Rightarrow> Inl (Rte_Exit EXIT_FAILURE ''Failed while parsing --no-arp'')
      | Some (tmp, input) \<Rightarrow> no_arp_loop (Suc i) n input (scan_mac_byte tmp i mac))"

definition parse_no_arp_arg :: "string \<Rightarrow> app_config \<Rightarrow> app_config res" where
  "parse_no_arp_arg optarg c =
     (case no_arp_loop 0 5 optarg (cf_dest_mac c) of
        Inl e \<Rightarrow> Inl e
      | Inr (input, mac) \<Rightarrow>
          (case strtok [] input of
             None \<Rightarrow> Inl (Rte_Exit EXIT_FAILURE ''Failed while parsing --no-arp'')
           | Some (tmp, _) \<Rightarrow> Inr (c\<lparr>cf_dest_mac := scan_mac_byte tmp 5 mac\<rparr>)))"

subsection \<open>One option\<close>

definition check_only_one_mode :: "app_config \<Rightarrow> app_config res" where
  "check_only_one_mode c =
     (if cf_mode c = mode_undefined then Inr c
      else Inl (Rte_Exit EXIT_FAILURE ''Multiple application mode were selected''))"

definition check_client_mode :: "app_config \<Rightarrow> app_config res" where
  "check_client_mode c =
     (if cf_mode c \<noteq> mode_client \<and> cf_mode c \<noteq> mode_latency_clinet
      then Inl (Rte_Exit EXIT_FAILURE ''Expected to be in client mode'') else Inr c)"

definition guard_res :: "'a res \<Rightarrow> ('a \<Rightarrow> 'b res) \<Rightarrow> 'b res" where
  "guard_res r k = (case r of Inl e \<Rightarrow> Inl e | Inr c \<Rightarrow> k c)"

definition parse_ip_dest :: "string \<Rightarrow> app_config \<Rightarrow> app_config res" where
  "parse_ip_dest optarg c =
     guard_res (check_client_mode c) (\<lambda>c.
       let i = sint (cf_count_server_ips c)
       in if i \<ge> int MAX_SERVER_IP_DEST
          then Inl (Rte_Exit EXIT_FAILURE ''Maximum number of destination servers have been reached'')
          else let c = c\<lparr>cf_count_server_ips := cf_count_server_ips c + 1\<rparr>
               in case str_to_ip optarg of
                    None \<Rightarrow> Inl (Rte_Exit EXIT_FAILURE ''Failed to read destination ip address'')
                  | Some ip \<Rightarrow> Inr (c\<lparr>cf_server_ips := (cf_server_ips c)(nat i \<mapsto> ip)\<rparr>))"

definition parse_port :: "string \<Rightarrow> app_config \<Rightarrow> app_config res" where
  "parse_port optarg c =
     (let ret = atoi optarg
      in if ret \<le> 0 then Inl (Rte_Exit EXIT_FAILURE ''Invalid client port number'')
         else if cf_mode c = mode_undefined
         then Inl (Rte_Exit EXIT_FAILURE ''Expect to set the application mode before defining local port'')
         else if cf_mode c = mode_server then Inr (c\<lparr>cf_server_port := word_of_int ret\<rparr>)
         else Inr (set_client_port (word_of_int ret) c))"

definition parse_delay :: "string \<Rightarrow> app_config \<Rightarrow> app_config res" where
  "parse_delay optarg c =
     (if cf_mode c = mode_undefined
      then Inl (Rte_Exit EXIT_FAILURE ''Expect to set the application mode before setting delay cycles'')
      else let ret = to_int (atol optarg)
           in if cf_mode c = mode_server then Inr (set_server_delay (word_of_int ret) c)
              else Inr (c\<lparr>cf_delay_cycles := word_of_int ret\<rparr>))"

text \<open>The \<open>switch\<close>.\<close>

fun parse_opt :: "fpu \<Rightarrow> opts \<Rightarrow> string \<Rightarrow> app_config \<Rightarrow> app_config res" where
  "parse_opt F NUM_QUEUE optarg c =
     (let ret = atoi optarg
      in if ret < 1 then Inl (Rte_Exit EXIT_FAILURE ''Invalid number of queues'')
         else Inr (c\<lparr>cf_num_queues := word_of_int ret\<rparr>))"
| "parse_opt F CLIENT optarg c =
     guard_res (check_only_one_mode c) (\<lambda>c. Inr (c\<lparr>cf_mode := mode_client\<rparr>))"
| "parse_opt F SERVER optarg c =
     guard_res (check_only_one_mode c) (\<lambda>c. Inr (c\<lparr>cf_mode := mode_server\<rparr>))"
| "parse_opt F LATENCY_CLIENT optarg c =
     guard_res (check_only_one_mode c) (\<lambda>c. Inr (c\<lparr>cf_mode := mode_latency_clinet\<rparr>))"
| "parse_opt F IP_LOCAL optarg c =
     (case str_to_ip optarg of
        None \<Rightarrow> Inl (Rte_Exit EXIT_FAILURE ''Failed to read source ip address'')
      | Some ip \<Rightarrow> Inr (c\<lparr>cf_source_ip := ip\<rparr>))"
| "parse_opt F IP_DEST optarg c = parse_ip_dest optarg c"
| "parse_opt F PORT optarg c = parse_port optarg c"
| "parse_opt F DEST_PORT optarg c =
     guard_res (check_client_mode c) (\<lambda>c.
       let ret = atoi optarg
       in if ret \<le> 0 then Inl (Rte_Exit EXIT_FAILURE ''Invalid server port number'')
          else Inr (c\<lparr>cf_server_port := word_of_int ret\<rparr>))"
| "parse_opt F NUM_FLOW optarg c = Inr (c\<lparr>cf_count_flow := atoi optarg\<rparr>)"
| "parse_opt F DURATION optarg c = Inr (c\<lparr>cf_duration := atoi optarg\<rparr>)"
| "parse_opt F DELAY optarg c = parse_delay optarg c"
| "parse_opt F RATE optarg c = Inr (c\<lparr>cf_rate_limit := True, cf_rate := word_of_int (atol optarg)\<rparr>)"
| "parse_opt F BATCH_SIZE optarg c =
     (if cf_mode c \<noteq> mode_latency_clinet \<and> cf_mode c \<noteq> mode_client
      then Inl (Rte_Exit EXIT_FAILURE ''Expected to be in latency-client mode'')
      else let ret = atoi optarg
           in if ret < 1 then Inl (Rte_Exit EXIT_FAILURE ''Unexpected value for batch size'')
              else Inr (c\<lparr>cf_batch := word_of_int ret\<rparr>))"
| "parse_opt F PAYLOAD_LENGTH optarg c =
     guard_res (check_client_mode c) (\<lambda>c.
       let ret = atoi optarg
       in if ret < 1 then Inl (Rte_Exit EXIT_FAILURE ''Unexpected value for payload length'')
          else Inr (c\<lparr>cf_payload_size := word_of_int ret\<rparr>))"
| "parse_opt F UNIDIR optarg c = Inr (c\<lparr>cf_bidi := False\<rparr>)"
| "parse_opt F NO_ARP optarg c = parse_no_arp_arg optarg (c\<lparr>cf_do_arp := False\<rparr>)"
| "parse_opt F HDR_ENCP_SZ optarg c =
     (if cf_mode c \<noteq> mode_latency_clinet
      then Inl (Rte_Exit EXIT_FAILURE ''Expected to be in latency-client mode (hdr_encp_sze)'')
      else Inr (c\<lparr>cf_hdr_encp_sz := word_of_int (atoi optarg)\<rparr>))"
| "parse_opt F OPT_ZIPF_CLIENT_ADDR optarg c =
     (if cf_mode c \<noteq> mode_client
      then Inl (Rte_Exit EXIT_FAILURE ''Expected to be in latency-client mode (zipf-client-addr)'')
      else parse_zipf_client_addr_arg F optarg c)"
| "parse_opt F MAX_NUM optarg c =
     (case scan_d optarg of None \<Rightarrow> Inr c | Some v \<Rightarrow> Inr (c\<lparr>cf_max_num := v\<rparr>))"
| "parse_opt F ADD_KATRAN_OPT optarg c = Inr (c\<lparr>cf_add_katran_opt := word_of_int (atoi optarg)\<rparr>)"
| "parse_opt F HELP optarg c = Inl (Rte_Exit EXIT_SUCCESS ''!'')"
| "parse_opt F SERVER_PORT optarg c = Inl (Rte_Exit EXIT_FAILURE ''!'')"

subsection \<open>The whole command line\<close>

lemma getopt_long_shorter: "getopt_long args = (Opt opt a, rest) \<Longrightarrow> length rest < length args"
proof (induction args rule: getopt_long.induct)
  case (2 a args)
  then show ?case
    by (auto simp: Let_def split: if_splits option.splits prod.splits bool.splits list.splits)
qed simp

function parse_loop :: "fpu \<Rightarrow> string list \<Rightarrow> app_config \<Rightarrow> app_config res" where
  "parse_loop F args c =
     (case getopt_long args of
        (End_Of_Options, _) \<Rightarrow> Inr c
      | (Bad_Option, _) \<Rightarrow> Inl (Rte_Exit EXIT_FAILURE ''!'')
      | (Opt opt optarg, rest) \<Rightarrow>
          (case parse_opt F opt optarg c of
             Inl e \<Rightarrow> Inl e
           | Inr c \<Rightarrow> parse_loop F rest c))"
  by pat_completeness auto
termination
  by (relation "measure (\<lambda>(F, args, c). length args)") (auto dest: getopt_long_shorter [OF sym])

declare parse_loop.simps [simp del]

text \<open>The checks behind the loop.\<close>

definition parse_finish :: "app_config \<Rightarrow> app_config res" where
  "parse_finish c =
     (if cf_mode c = mode_undefined then Inl (Rte_Exit EXIT_FAILURE ''Application mode not set'')
      else
        let c = (if cf_batch c = 0
                 then if cf_mode c = mode_client then c\<lparr>cf_batch := 32\<rparr>
                      else if cf_mode c = mode_latency_clinet then c\<lparr>cf_batch := 1\<rparr> else c
                 else c)
        in if cf_source_ip c = 0 then Inl (Rte_Exit EXIT_FAILURE ''Expect source Ip to be set!'')
           else if cf_count_server_ips c = 0 \<and> (cf_mode c = mode_client \<or> cf_mode c = mode_latency_clinet)
           then Inl (Rte_Exit EXIT_FAILURE ''Expect at least one destination address'')
           else Inr c)"

text \<open>\<open>rte_eal_init\<close> returns the number of arguments it parsed, or a negative number.\<close>

definition dpdk_init :: "(string list \<Rightarrow> int) \<Rightarrow> string list \<Rightarrow> nat res" where
  "dpdk_init rte_eal_init argv =
     (let args_parsed = rte_eal_init argv
      in if args_parsed < 0 then Inl (Rte_Exit EXIT_FAILURE ''Error with EAL initialization'')
         else Inr (nat args_parsed))"

definition parse_args :: "fpu \<Rightarrow> (string list \<Rightarrow> int) \<Rightarrow> string list \<Rightarrow> app_config res" where
  "parse_args F rte_eal_init argv =
     guard_res (dpdk_init rte_eal_init argv) (\<lambda>args_parsed.
     guard_res (parse_loop F (drop (args_parsed + 1) argv) default_config) parse_finish)"

section \<open>Specification\<close>

text \<open>What holds of the configuration after every option.\<close>

definition config_inv :: "app_config \<Rightarrow> bool" where
  "config_inv c \<longleftrightarrow>
     unat (cf_count_server_ips c) \<le> MAX_SERVER_IP_DEST \<and>
     (\<forall>i < unat (cf_count_server_ips c). cf_server_ips c i \<noteq> None) \<and>
     (cf_mode c \<in> {mode_undefined, mode_server} \<longrightarrow> cf_count_server_ips c = 0) \<and>
     0 < cf_payload_size c \<and> cf_payload_size c < 0x80000000 \<and>
     cf_unique_client_ports c \<le> cf_unique_client_addresses c \<and>
     (cf_select_src_ip c \<longrightarrow> cf_mode c = mode_client) \<and>
     \<not> cf_use_vlan c \<and> length (cf_dest_mac c) = 6"

text \<open>What the rest of the program may rely on once the command line is accepted.\<close>

definition valid_config :: "app_config \<Rightarrow> bool" where
  "valid_config c \<longleftrightarrow> config_inv c \<and> cf_mode c \<noteq> mode_undefined \<and> cf_source_ip c \<noteq> 0 \<and>
     (cf_mode c \<noteq> mode_server \<longrightarrow> 0 < cf_count_server_ips c \<and> 0 < cf_batch c)"

text \<open>The options of a command line in order, up to the end or the first bad one.\<close>

function options :: "string list \<Rightarrow> (opts \<times> string) list" where
  "options args =
     (case getopt_long args of (Opt opt optarg, rest) \<Rightarrow> (opt, optarg) # options rest | _ \<Rightarrow> [])"
  by pat_completeness auto
termination
  by (relation "measure length") (auto dest: getopt_long_shorter [OF sym])

declare options.simps [simp del]

text \<open>The destination addresses, in the order of the array.\<close>

definition dest_ips :: "app_config \<Rightarrow> u32 option list" where
  "dest_ips c = map (cf_server_ips c) [0..<unat (cf_count_server_ips c)]"

text \<open>A MAC address as text: six bytes of two hexadecimal digits, separated by colons.\<close>

definition hex_char :: "nat \<Rightarrow> char" where
  "hex_char n = (if n < 10 then char_of (48 + n) else char_of (87 + n))"

definition byte_hex :: "u8 \<Rightarrow> string" where
  "byte_hex b = [hex_char (unat b div 16), hex_char (unat b mod 16)]"

definition mac_text :: "u8 \<Rightarrow> u8 \<Rightarrow> u8 \<Rightarrow> u8 \<Rightarrow> u8 \<Rightarrow> u8 \<Rightarrow> string" where
  "mac_text b0 b1 b2 b3 b4 b5 =
     byte_hex b0 @ '':'' @ byte_hex b1 @ '':'' @ byte_hex b2 @ '':'' @ byte_hex b3 @ '':'' @
     byte_hex b4 @ '':'' @ byte_hex b5"

section \<open>The invariant\<close>

lemmas check_simps = guard_res_def check_client_mode_def check_only_one_mode_def Let_def

lemma head_keeps_inv [simp]:
  "config_inv (set_client_port p c) = config_inv c"
  "config_inv (set_server_delay v c) = config_inv c"
  by (simp_all add: config_inv_def set_client_port_def set_server_delay_def)

lemma config_inv_upd [simp]:
  "config_inv (c\<lparr>cf_num_queues := q\<rparr>) = config_inv c"
  "config_inv (c\<lparr>cf_source_ip := ip\<rparr>) = config_inv c"
  "config_inv (c\<lparr>cf_server_port := p\<rparr>) = config_inv c"
  "config_inv (c\<lparr>cf_count_flow := i\<rparr>) = config_inv c"
  "config_inv (c\<lparr>cf_duration := i\<rparr>) = config_inv c"
  "config_inv (c\<lparr>cf_rate_limit := b\<rparr>) = config_inv c"
  "config_inv (c\<lparr>cf_rate := r\<rparr>) = config_inv c"
  "config_inv (c\<lparr>cf_delay_cycles := r\<rparr>) = config_inv c"
  "config_inv (c\<lparr>cf_batch := p\<rparr>) = config_inv c"
  "config_inv (c\<lparr>cf_bidi := b\<rparr>) = config_inv c"
  "config_inv (c\<lparr>cf_do_arp := b\<rparr>) = config_inv c"
  "config_inv (c\<lparr>cf_hdr_encp_sz := p\<rparr>) = config_inv c"
  "config_inv (c\<lparr>cf_max_num := i\<rparr>) = config_inv c"
  "config_inv (c\<lparr>cf_add_katran_opt := ip\<rparr>) = config_inv c"
  by (simp_all add: config_inv_def)

lemma config_inv_mode: "config_inv c \<Longrightarrow> cf_mode c = mode_undefined \<Longrightarrow> config_inv (c\<lparr>cf_mode := m\<rparr>)"
  by (auto simp: config_inv_def)

lemma default_config_inv: "config_inv default_config"
  by (simp add: default_config_def) (simp add: config_inv_def zero_config_def)

lemma parse_ip_dest_adds:
  assumes inv: "config_inv c" and ok: "parse_ip_dest optarg c = Inr c'"
  obtains ip where "str_to_ip optarg = Some ip"
    and "c' = c\<lparr>cf_count_server_ips := cf_count_server_ips c + 1,
                cf_server_ips := (cf_server_ips c)(unat (cf_count_server_ips c) \<mapsto> ip)\<rparr>"
    and "unat (cf_count_server_ips c + 1) = Suc (unat (cf_count_server_ips c))"
    and "unat (cf_count_server_ips c) < 32"
    and "cf_mode c = mode_client \<or> cf_mode c = mode_latency_clinet"
proof -
  let ?n = "cf_count_server_ips c"
  have "unat ?n \<le> 32" using inv by (simp add: config_inv_def)
  then have sint: "sint ?n = int (unat ?n)" by (intro sint_small_u32) simp
  have mode: "cf_mode c = mode_client \<or> cf_mode c = mode_latency_clinet"
    using ok by (simp add: parse_ip_dest_def check_simps split: if_splits)
  have "int (unat ?n) = uint ?n" by simp
  then have "32 \<le> uint ?n \<longleftrightarrow> 32 \<le> unat ?n" by linarith
  with ok sint mode have less: "unat ?n < 32"
    by (simp add: parse_ip_dest_def check_simps split: if_splits)
  then have "?n + 1 \<noteq> 0" by unat_arith simp
  then have suc: "unat (?n + 1) = Suc (unat ?n)" by (metis unatSuc add.commute)
  show ?thesis
  proof (cases "str_to_ip optarg")
    case (Some ip)
    show ?thesis
    proof (rule that [OF Some _ suc less mode])
      show "c' = c\<lparr>cf_count_server_ips := ?n + 1, cf_server_ips := (cf_server_ips c)(unat ?n \<mapsto> ip)\<rparr>"
        using ok sint Some by (simp add: parse_ip_dest_def check_simps split: if_splits)
    qed
  qed (use ok in \<open>simp add: parse_ip_dest_def check_simps split: if_splits\<close>)
qed

lemma parse_ip_dest_inv:
  assumes inv: "config_inv c" and ok: "parse_ip_dest optarg c = Inr c'"
  shows "config_inv c'"
  using parse_ip_dest_adds [OF assms]
proof cases
  case (1 ip)
  then have "cf_mode c \<noteq> mode_undefined" "cf_mode c \<noteq> mode_server" by auto
  then show ?thesis using inv 1(3,4) unfolding 1(2) config_inv_def by (simp add: less_Suc_eq)
qed

lemma no_arp_loop_length: "no_arp_loop i n input mac = Inr (rest, mac') \<Longrightarrow> length mac' = length mac"
  by (induction i n input mac rule: no_arp_loop.induct)
    (auto simp: scan_mac_byte_def split: option.splits)

lemma parse_no_arp_arg_inv:
  "config_inv c \<Longrightarrow> parse_no_arp_arg optarg c = Inr c' \<Longrightarrow> config_inv c'"
  by (auto simp: parse_no_arp_arg_def config_inv_def scan_mac_byte_def dest!: no_arp_loop_length
      split: sum.splits option.splits)

lemma parse_zipf_inv:
  "config_inv c \<Longrightarrow> cf_mode c = mode_client \<Longrightarrow> parse_zipf_client_addr_arg F optarg c = Inr c' \<Longrightarrow> config_inv c'"
  by (auto simp: parse_zipf_client_addr_arg_def config_inv_def Let_def not_less split: option.splits if_splits)

lemma payload_range:
  assumes "1 \<le> atoi s"
  shows "0 < (word_of_int (atoi s) :: u32)" and "(word_of_int (atoi s) :: u32) < 0x80000000"
proof -
  have "atoi s < 2 ^ 31" using to_int_bounds [of "strtol s"] by (simp add: atoi_def)
  with assms have "int (unat (word_of_int (atoi s) :: u32)) = atoi s"
    by (intro unat_word_of_int_u32) auto
  with assms \<open>atoi s < 2 ^ 31\<close> show "0 < (word_of_int (atoi s) :: u32)"
    and "(word_of_int (atoi s) :: u32) < 0x80000000"
    by (simp_all add: word_less_def)
qed

lemma parse_opt_inv:
  assumes "config_inv c" and "parse_opt F opt optarg c = Inr c'"
  shows "config_inv c'"
proof (cases opt)
  case PAYLOAD_LENGTH
  have "config_inv (c\<lparr>cf_payload_size := word_of_int (atoi optarg)\<rparr>)" if "1 \<le> atoi optarg"
    using assms(1) payload_range [OF that] by (simp add: config_inv_def)
  then show ?thesis using assms PAYLOAD_LENGTH by (auto simp: check_simps split: if_splits)
next
  case NO_ARP
  then show ?thesis using assms parse_no_arp_arg_inv [of "c\<lparr>cf_do_arp := False\<rparr>" optarg c'] by simp
next
  case IP_DEST
  then show ?thesis using assms parse_ip_dest_inv by simp
next
  case OPT_ZIPF_CLIENT_ADDR
  then show ?thesis using assms parse_zipf_inv by (auto split: if_splits)
qed (use assms in \<open>auto simp: check_simps parse_port_def parse_delay_def config_inv_mode split: if_splits option.splits\<close>)

section \<open>The command line as a list of options\<close>

lemma parse_loop_options:
  "parse_loop F args c = Inr c' \<Longrightarrow> fold_res (\<lambda>(opt, optarg). parse_opt F opt optarg) (options args) c = Inr c'"
proof (induction F args c rule: parse_loop.induct)
  case (1 F args c)
  obtain r rest where r: "getopt_long args = (r, rest)" by fastforce
  show ?case
  proof (cases r)
    case (Opt opt optarg)
    with 1 r show ?thesis
      by (auto simp: parse_loop.simps [of F args c] options.simps [of args] split: sum.splits)
  qed (use 1 r in \<open>auto simp: parse_loop.simps [of F args c] options.simps [of args]\<close>)
qed

lemma parse_loop_inv:
  assumes "config_inv c" and "parse_loop F args c = Inr c'"
  shows "config_inv c'"
  using fold_res_invariant [OF parse_loop_options [OF assms(2)], of config_inv] assms(1) parse_opt_inv
  by auto

lemma parse_opt_mode:
  "parse_opt F opt optarg c = Inr c' \<Longrightarrow> cf_mode c \<noteq> mode_undefined \<Longrightarrow> cf_mode c' = cf_mode c"
  by (cases opt)
    (auto simp: check_simps parse_ip_dest_def parse_port_def parse_delay_def parse_no_arp_arg_def
      parse_zipf_client_addr_arg_def set_client_port_def set_server_delay_def
      split: if_splits option.splits sum.splits)

text \<open>In server mode only \<open>--delay\<close> touches the word that holds the delay.\<close>

lemma parse_opt_head:
  assumes "parse_opt F opt optarg c = Inr c'" and "cf_mode c' = mode_undefined \<or> cf_mode c' = mode_server"
    and "opt \<noteq> DELAY"
  shows "cf_head c' = cf_head c"
  using assms
  by (cases opt)
    (auto simp: check_simps parse_ip_dest_def parse_port_def parse_no_arp_arg_def
      parse_zipf_client_addr_arg_def set_client_port_def
      split: if_splits option.splits sum.splits)

lemma options_mode:
  "fold_res (\<lambda>(opt, optarg). parse_opt F opt optarg) os c = Inr c' \<Longrightarrow> cf_mode c \<noteq> mode_undefined \<Longrightarrow>
     cf_mode c' = cf_mode c"
  by (induction os arbitrary: c) (auto dest: parse_opt_mode split: sum.splits)

lemma options_head:
  "fold_res (\<lambda>(opt, optarg). parse_opt F opt optarg) os c = Inr c' \<Longrightarrow> cf_mode c' = mode_server \<Longrightarrow>
     DELAY \<notin> fst ` set os \<Longrightarrow> cf_head c' = cf_head c"
proof (induction os arbitrary: c)
  case (Cons x os)
  obtain opt optarg where x: "x = (opt, optarg)" by fastforce
  with Cons.prems(1) obtain c1 where c1: "parse_opt F opt optarg c = Inr c1"
    and rest: "fold_res (\<lambda>(opt, optarg). parse_opt F opt optarg) os c1 = Inr c'"
    by (auto split: sum.splits)
  have "cf_mode c1 = mode_undefined \<or> cf_mode c1 = mode_server"
    using options_mode [OF rest] Cons.prems(2) by metis
  moreover have "opt \<noteq> DELAY" "DELAY \<notin> fst ` set os" using Cons.prems(3) x by auto
  ultimately show ?case
    using Cons.IH [OF rest Cons.prems(2)] parse_opt_head [OF c1] by simp
qed simp

text \<open>The destination addresses collected so far.\<close>

lemma parse_opt_dests:
  assumes "config_inv c" and "parse_opt F opt optarg c = Inr c'"
  shows "dest_ips c' = dest_ips c @ (if opt = IP_DEST then [str_to_ip optarg] else [])"
proof (cases "opt = IP_DEST")
  case True
  with assms have "parse_ip_dest optarg c = Inr c'" by simp
  from parse_ip_dest_adds [OF assms(1) this] show ?thesis
  proof cases
    case (1 ip)
    then show ?thesis using True by (simp add: dest_ips_def 1(3) upt_Suc_append)
  qed
next
  case False
  with assms(2) have "cf_count_server_ips c' = cf_count_server_ips c \<and> cf_server_ips c' = cf_server_ips c"
    by (cases opt)
      (auto simp: check_simps parse_port_def parse_delay_def parse_no_arp_arg_def
        parse_zipf_client_addr_arg_def set_client_port_def set_server_delay_def
        split: if_splits option.splits sum.splits)
  with False show ?thesis by (simp add: dest_ips_def)
qed

lemma options_dests:
  "fold_res (\<lambda>(opt, optarg). parse_opt F opt optarg) os c = Inr c' \<Longrightarrow> config_inv c \<Longrightarrow>
     dest_ips c' = dest_ips c @ [str_to_ip a. (opt, a) \<leftarrow> os, opt = IP_DEST]"
proof (induction os arbitrary: c)
  case (Cons x os)
  obtain opt optarg where x: "x = (opt, optarg)" by fastforce
  with Cons.prems(1) obtain c1 where c1: "parse_opt F opt optarg c = Inr c1"
    and rest: "fold_res (\<lambda>(opt, optarg). parse_opt F opt optarg) os c1 = Inr c'"
    by (auto split: sum.splits)
  show ?case
    using Cons.IH [OF rest parse_opt_inv [OF Cons.prems(2) c1]] parse_opt_dests [OF Cons.prems(2) c1] x by simp
qed simp

section \<open>MAC addresses as text\<close>

lemma hex_char_code: "n < 16 \<Longrightarrow> of_char (hex_char n) = (if n < 10 then 48 + n else 87 + n :: nat)"
  by (simp add: hex_char_def)

lemma hex_char_simps:
  assumes "n < 16"
  shows "hex_val (hex_char n) = Some n" and "\<not> is_space (hex_char n)" and "hex_char n \<noteq> CHR '':''"
    and "hex_char n \<noteq> CHR ''-''" and "hex_char n \<noteq> CHR ''+''"
proof -
  note code = hex_char_code [OF assms]
  show "hex_val (hex_char n) = Some n" "\<not> is_space (hex_char n)"
    using assms code by (auto simp: hex_val_def is_digit_def is_space_def Let_def)
  show "hex_char n \<noteq> CHR '':''" "hex_char n \<noteq> CHR ''-''" "hex_char n \<noteq> CHR ''+''"
    using assms code by (auto split: if_splits)
qed

lemma byte_digits: "unat (b :: u8) div 16 < 16" "unat b mod 16 < 16"
  using unat_bound(1) [of b] by (auto simp: less_mult_imp_div_less)

lemma scan_byte_hex: "scan_2hhx (byte_hex b) = Some b"
proof -
  have "16 * (int (unat b) div 16) + int (unat b) mod 16 = int (unat b)" by (rule mult_div_mod_eq)
  then show ?thesis
    using hex_char_simps [OF byte_digits(1) [of b]] hex_char_simps [OF byte_digits(2) [of b]]
    by (simp add: scan_2hhx_def byte_hex_def is_xdigit_def hex_value_def zdiv_int zmod_int)
qed

lemma strtok_byte_hex:
  "strtok '':'' (byte_hex b @ CHR '':'' # rest) = Some (byte_hex b, rest)"
  "strtok [] (byte_hex b) = Some (byte_hex b, [])"
  using hex_char_simps [OF byte_digits(1) [of b]] hex_char_simps [OF byte_digits(2) [of b]]
  by (simp_all add: strtok_def byte_hex_def)

section \<open>Properties\<close>

lemma parse_args_config:
  assumes "parse_args F rte_eal_init argv = Inr c"
  shows "valid_config c"
proof -
  obtain n c1 where c1: "parse_loop F (drop (n + 1) argv) default_config = Inr c1" and fin: "parse_finish c1 = Inr c"
    using assms by (auto simp: parse_args_def guard_res_def split: sum.splits)
  have "config_inv c1" using default_config_inv c1 by (rule parse_loop_inv)
  with fin show ?thesis
    by (cases "cf_mode c1") (auto simp: parse_finish_def valid_config_def Let_def word_gt_0 split: if_splits)
qed

text \<open>C12. Whatever the command line, a configuration that \<open>parse_args\<close> accepts is valid: the mode is
  set, the local address is set, a client has between 1 and 32 destination addresses, all of
  them initialised, and a positive batch size, the payload is between 1 and \<open>2 ^ 31 - 1\<close> bytes,
  and there are not more client ports than client addresses.\<close>

theorem parse_args_valid:
  assumes "parse_args F rte_eal_init argv = Inr c"
  shows "valid_config c"
  using assms by (rule parse_args_config)

text \<open>C39. Without \<open>--delay\<close> a server runs with a delay of 3000 cycles per packet, the default of the
  client's port, because the two share memory; the usage text promises 0.\<close>

theorem server_delay_default:
  assumes "rte_eal_init argv = int n" and "parse_args F rte_eal_init argv = Inr c"
    and "cf_mode c = mode_server" and "DELAY \<notin> fst ` set (options (drop (n + 1) argv))"
  shows "cf_server_delay c = 3000"
proof -
  obtain c1 where c1: "parse_loop F (drop (n + 1) argv) default_config = Inr c1" and fin: "parse_finish c1 = Inr c"
    using assms(1,2) by (auto simp: parse_args_def dpdk_init_def guard_res_def split: sum.splits)
  have same: "cf_mode c1 = cf_mode c" "cf_head c1 = cf_head c"
    using fin by (auto simp: parse_finish_def Let_def split: if_splits)
  have "cf_head c1 = cf_head default_config"
    using options_head [OF parse_loop_options [OF c1]] assms(3,4) same by simp
  then show ?thesis
    using same by (simp add: cf_server_delay_def default_config_def set_client_port_def zero_config_def)
qed

text \<open>C38. \<open>--no-arp\<close> reads back every MAC address written as six bytes of two hexadecimal digits, and
  changes nothing else of the configuration.\<close>

theorem parse_no_arp_arg_roundtrip:
  assumes "length (cf_dest_mac c) = 6"
  shows "parse_no_arp_arg (mac_text b0 b1 b2 b3 b4 b5) c = Inr (c\<lparr>cf_dest_mac := [b0, b1, b2, b3, b4, b5]\<rparr>)"
proof -
  obtain m0 m1 m2 m3 m4 m5 where "cf_dest_mac c = [m0, m1, m2, m3, m4, m5]"
    using assms by (auto simp: length_Suc_conv numeral_eq_Suc)
  then show ?thesis
    by (simp add: parse_no_arp_arg_def mac_text_def strtok_byte_hex scan_mac_byte_def scan_byte_hex numeral_eq_Suc)
qed

text \<open>C19. The destination addresses of an accepted command line are the arguments of its \<open>--ip-dest\<close>
  options, read by \<open>str_to_ip\<close>, in the order given.\<close>

theorem parse_args_dests:
  assumes "rte_eal_init argv = int n" and "parse_args F rte_eal_init argv = Inr c"
  shows "dest_ips c = [str_to_ip a. (opt, a) \<leftarrow> options (drop (n + 1) argv), opt = IP_DEST]"
proof -
  obtain c1 where c1: "parse_loop F (drop (n + 1) argv) default_config = Inr c1" and fin: "parse_finish c1 = Inr c"
    using assms(1,2) by (auto simp: parse_args_def dpdk_init_def guard_res_def split: sum.splits)
  have "dest_ips c = dest_ips c1"
    using fin by (auto simp: parse_finish_def Let_def dest_ips_def split: if_splits)
  moreover have "dest_ips default_config = []"
    by (simp add: dest_ips_def default_config_def set_client_port_def zero_config_def)
  ultimately show ?thesis
    using options_dests [OF parse_loop_options [OF c1] default_config_inv] by simp
qed

text \<open>The mode comes first and is chosen once: before it is chosen, every option that depends on it is
  refused, and once it is chosen, choosing again is refused and no option changes it.\<close>

lemma parse_opt_mode_first:
  "(cf_mode c = mode_undefined \<and>
      opt \<in> {IP_DEST, PORT, DEST_PORT, DELAY, BATCH_SIZE, PAYLOAD_LENGTH, HDR_ENCP_SZ, OPT_ZIPF_CLIENT_ADDR} \<longrightarrow>
      (\<exists>msg. parse_opt F opt optarg c = Inl (Rte_Exit EXIT_FAILURE msg))) \<and>
   (cf_mode c \<noteq> mode_undefined \<and> opt \<in> {CLIENT, SERVER, LATENCY_CLIENT} \<longrightarrow>
      parse_opt F opt optarg c = Inl (Rte_Exit EXIT_FAILURE ''Multiple application mode were selected'')) \<and>
   (cf_mode c \<noteq> mode_undefined \<and> parse_opt F opt optarg c = Inr c' \<longrightarrow> cf_mode c' = cf_mode c)"
proof (intro conjI impI)
  assume "cf_mode c = mode_undefined \<and>
    opt \<in> {IP_DEST, PORT, DEST_PORT, DELAY, BATCH_SIZE, PAYLOAD_LENGTH, HDR_ENCP_SZ, OPT_ZIPF_CLIENT_ADDR}"
  then show "\<exists>msg. parse_opt F opt optarg c = Inl (Rte_Exit EXIT_FAILURE msg)"
    by (auto simp: check_simps parse_ip_dest_def parse_port_def parse_delay_def)
next
  assume "cf_mode c \<noteq> mode_undefined \<and> opt \<in> {CLIENT, SERVER, LATENCY_CLIENT}"
  then show "parse_opt F opt optarg c = Inl (Rte_Exit EXIT_FAILURE ''Multiple application mode were selected'')"
    by (auto simp: check_simps)
qed (use parse_opt_mode in blast)

section \<open>Examples\<close>

definition no_eal :: "string list \<Rightarrow> int" where
  "no_eal argv = 0"

definition client_argv :: "string list" where
  "client_argv = [''app'', ''--client'', ''--ip-local'', ''10.0.0.1'', ''--ip-dest=10.0.0.2'', ''--ip-d'', ''10.0.0.3'']"

definition server_argv :: "string list" where
  "server_argv = [''app'', ''--server'', ''--ip-local'', ''10.0.0.1'']"

lemma client_options: "options (drop (Suc 0) client_argv) =
   [(CLIENT, []), (IP_LOCAL, ''10.0.0.1''), (IP_DEST, ''10.0.0.2''), (IP_DEST, ''10.0.0.3'')]"
  by code_simp

lemma server_options: "options (drop (Suc 0) server_argv) = [(SERVER, []), (IP_LOCAL, ''10.0.0.1'')]"
  by code_simp

lemma client_accepted: "case parse_args F no_eal client_argv of Inl e \<Rightarrow> False | Inr c \<Rightarrow> cf_mode c = mode_client"
  by code_simp

lemma server_accepted: "case parse_args F no_eal server_argv of Inl e \<Rightarrow> False | Inr c \<Rightarrow> cf_mode c = mode_server"
  by code_simp

theorem parse_args_valid_witness:
  "\<exists>c. parse_args exact_fpu no_eal client_argv = Inr c \<and> valid_config c"
  using parse_args_valid [of exact_fpu no_eal client_argv] client_accepted [of exact_fpu] by (auto split: sum.splits)

theorem server_delay_default_witness:
  "\<exists>c. parse_args exact_fpu no_eal server_argv = Inr c \<and> cf_server_delay c = 3000"
proof -
  obtain c where c: "parse_args exact_fpu no_eal server_argv = Inr c" "cf_mode c = mode_server"
    using server_accepted [of exact_fpu] by (auto split: sum.splits)
  have "no_eal server_argv = int 0" by (simp add: no_eal_def)
  from server_delay_default [OF this c] c show ?thesis by (simp add: server_options)
qed

theorem parse_no_arp_arg_roundtrip_witness:
  "parse_no_arp_arg ''0a:1b:2c:3d:4e:ff'' default_config =
     Inr (default_config\<lparr>cf_dest_mac := [0x0A, 0x1B, 0x2C, 0x3D, 0x4E, 0xFF]\<rparr>)"
proof -
  have "mac_text 0x0A 0x1B 0x2C 0x3D 0x4E 0xFF = ''0a:1b:2c:3d:4e:ff''" by code_simp
  moreover have "length (cf_dest_mac default_config) = 6"
    by (simp add: default_config_def set_client_port_def zero_config_def)
  ultimately show ?thesis
    using parse_no_arp_arg_roundtrip [of default_config "0x0A" "0x1B" "0x2C" "0x3D" "0x4E" "0xFF"] by simp
qed

theorem parse_args_dests_witness:
  "\<exists>c. parse_args exact_fpu no_eal client_argv = Inr c \<and> dest_ips c = [Some 0x0A000002, Some 0x0A000003]"
proof -
  obtain c where c: "parse_args exact_fpu no_eal client_argv = Inr c"
    using client_accepted [of exact_fpu] by (auto split: sum.splits)
  have "no_eal client_argv = int 0" by (simp add: no_eal_def)
  moreover have "str_to_ip ''10.0.0.2'' = Some 0x0A000002" "str_to_ip ''10.0.0.3'' = Some 0x0A000003"
    by code_simp+
  ultimately show ?thesis using parse_args_dests [OF _ c] c by (simp add: client_options)
qed

end
