(* ===== verification/Zipf.thy ===== *)
theory Zipf
  imports Fpu
begin

text \<open>
  Random numbers, from \<open>utils/zipf.c\<close> and \<open>include/zipf.h\<close>: the linear congruential generator
  \<open>__myrand\<close>, the table of its outputs behind \<open>myrand\<close>, and numbers with a Zipf distribution
  (\<open>new_zipfgen\<close>, \<open>number_from_zipf_distribution\<close>), drawn by binary search in a table of
  cumulative probabilities. A C \<open>int\<close> is an integer whose range is checked: a table entry that does
  not fit, and an index computation that overflows, are errors. The lemmas show that the search
  equals a linear scan, stays inside the table, and hits each rank with the number of random values
  its table entry stands for.
\<close>

section \<open>Model\<close>

definition RAND_MAX :: int where
  "RAND_MAX = 2147483647"

text \<open>\<open>_sz\<close>, the size of the table of random numbers.\<close>

definition rand_sz :: nat where
  "rand_sz = 2 ^ 25"

text \<open>The static variables of the generator.\<close>

record rng =
  seed :: u64
  need_init :: bool
  srendipity :: "nat \<Rightarrow> int"
  rand_ptr :: nat

definition rng_init :: rng where
  "rng_init = \<lparr>seed = 1, need_init = True, srendipity = (\<lambda>_. 0), rand_ptr = 0\<rparr>"

text \<open>\<open>__myrand\<close>: the number and the new seed.\<close>

definition lcg :: "u64 \<Rightarrow> int \<times> u64" where
  "lcg s = (let s = (1664525 * s + 1013904223) mod 4294967296 in (uint (s mod 2147483647), s))"

text \<open>The loop that fills the table from index \<open>i\<close> on, for \<open>n\<close> entries.\<close>

fun fill_table :: "nat \<Rightarrow> nat \<Rightarrow> u64 \<Rightarrow> (nat \<Rightarrow> int) \<Rightarrow> (nat \<Rightarrow> int) \<times> u64" where
  "fill_table i 0 s tab = (tab, s)"
| "fill_table i (Suc n) s tab = (let (r, s) = lcg s in fill_table (Suc i) n s (tab(i := r)))"

definition myrand :: "rng \<Rightarrow> int \<times> rng" where
  "myrand g =
     (let g = (if need_init g
               then let (tab, s) = fill_table 0 rand_sz (seed g) (srendipity g)
                    in g\<lparr>need_init := False, srendipity := tab, seed := s\<rparr>
               else g)
      in (srendipity g (rand_ptr g), g\<lparr>rand_ptr := (rand_ptr g + 1) mod rand_sz\<rparr>))"

record zipfgen =
  c_probs :: "int list"
  zipf_h :: dbl
  zipf_s :: real
  zipf_n :: int

text \<open>\<open>pow\<close>, whose result may underflow to 0 or overflow.\<close>

definition dbl_pow :: "fpu \<Rightarrow> nat \<Rightarrow> real \<Rightarrow> dbl" where
  "dbl_pow F i s = to_dbl (c_pow F (real i) s)"

text \<open>The harmonic number after \<open>i\<close> rounds of the first loop.\<close>

fun harmonic :: "fpu \<Rightarrow> real \<Rightarrow> nat \<Rightarrow> dbl" where
  "harmonic F s 0 = Dbl 0"
| "harmonic F s (Suc i) = dbl_add F (harmonic F s i) (dbl_recip F (dbl_pow F (Suc i) s))"

text \<open>The cumulative probability of the ranks up to \<open>i\<close>, as the second loop computes it.\<close>

fun c_prob :: "fpu \<Rightarrow> real \<Rightarrow> dbl \<Rightarrow> nat \<Rightarrow> dbl" where
  "c_prob F s h 0 = Dbl 0"
| "c_prob F s h (Suc i) =
     dbl_add F (c_prob F s h i) (dbl_recip F (dbl_mul F (dbl_pow F (Suc i) s) h))"

text \<open>The number of ranks is an \<open>int\<close>: \<open>n + 1\<close> overflows for the largest one, the allocation of a
  negative number of bytes fails, and that of none has no room for the first entry.\<close>

definition new_zipfgen :: "fpu \<Rightarrow> int \<Rightarrow> real \<Rightarrow> zipfgen res" where
  "new_zipfgen F n s =
     (if INT_MAX \<le> n then Inl Int_Overflow
      else if n < - 1 then Inl Null_Deref
      else if n = - 1 then Inl (Out_Of_Bounds 0)
      else let h = harmonic F s (nat n)
           in case map_res (\<lambda>i. int_of_dbl (dbl_mul F (c_prob F s h i) (Dbl (of_int RAND_MAX)))) [1..<nat n + 1] of
                Inl e \<Rightarrow> Inl e
              | Inr c_probs_int \<Rightarrow> Inr \<lparr>c_probs = 0 # c_probs_int, zipf_h = h, zipf_s = s, zipf_n = n\<rparr>)"

text \<open>The binary search. Reading outside the table is an error, and so is \<open>low + high\<close> above the
  largest \<open>int\<close>.\<close>

function zipf_search :: "int list \<Rightarrow> int \<Rightarrow> int \<Rightarrow> int \<Rightarrow> int res" where
  "zipf_search cp r low high =
     (if low \<le> high
      then if low + high > INT_MAX then Inl Int_Overflow
           else let mid = (low + high) div 2
                in if mid < 1 \<or> int (length cp) \<le> mid then Inl (Out_Of_Bounds (nat mid))
                   else if cp ! nat mid < r then zipf_search cp r (mid + 1) high
                   else if r \<le> cp ! nat (mid - 1) then zipf_search cp r low (mid - 1)
                   else Inr mid
      else Inr (- 1))"
  by pat_completeness auto
termination
  by (relation "measure (\<lambda>(cp, r, low, high). nat (high + 1 - low))") auto

declare zipf_search.simps [simp del]

definition number_from_zipf_distribution :: "zipfgen \<Rightarrow> rng \<Rightarrow> int res \<times> rng" where
  "number_from_zipf_distribution z g =
     (let (r, g) = myrand g in (zipf_search (c_probs z) r 1 (zipf_n z), g))"

section \<open>Specification\<close>

text \<open>What the search needs of a table: one entry per rank and entry 0, and few enough ranks that
  the sum of two indices is an \<open>int\<close>.\<close>

definition searchable :: "zipfgen \<Rightarrow> bool" where
  "searchable z \<longleftrightarrow> 0 \<le> zipf_n z \<and> zipf_n z < 2 ^ 30 \<and> int (length (c_probs z)) = zipf_n z + 1"

text \<open>A linear scan for the rank of a random number: the first entry that is not below it.\<close>

definition zipf_scan :: "int list \<Rightarrow> int \<Rightarrow> int" where
  "zipf_scan cp r =
     (let i = length (takeWhile (\<lambda>c. c < r) cp)
      in if 0 < i \<and> i < length cp then int i else - 1)"

text \<open>The outputs of the congruential generator started at seed 1, and the generator after \<open>k\<close>
  calls of \<open>myrand\<close>.\<close>

definition lcg_next :: "u64 \<Rightarrow> u64" where
  "lcg_next x = snd (lcg x)"

definition lcg_stream :: "nat \<Rightarrow> int" where
  "lcg_stream i = fst (lcg ((lcg_next ^^ i) 1))"

definition rng_after :: "nat \<Rightarrow> rng" where
  "rng_after k = ((\<lambda>g. snd (myrand g)) ^^ k) rng_init"

text \<open>What holds between calls of \<open>myrand\<close>.\<close>

definition rng_inv :: "nat \<Rightarrow> rng \<Rightarrow> bool" where
  "rng_inv k g \<longleftrightarrow> rand_ptr g = k mod rand_sz \<and>
     (if need_init g then k = 0 \<and> seed g = 1
      else (\<forall>j < rand_sz. srendipity g j = lcg_stream j))"

section \<open>The binary search\<close>

text \<open>In a sorted table the entries below \<open>r\<close> are exactly those the scan passes.\<close>

lemma sorted_below_iff:
  assumes "sorted cp" and "j < length cp"
  shows "cp ! j < (r :: int) \<longleftrightarrow> j < length (takeWhile (\<lambda>c. c < r) cp)"
proof
  let ?k = "length (takeWhile (\<lambda>c. c < r) cp)"
  assume less: "cp ! j < r"
  show "j < ?k"
  proof (rule ccontr)
    assume "\<not> j < ?k"
    then have k: "?k \<le> j" by simp
    with assms(2) have "\<not> cp ! ?k < r" by (intro nth_length_takeWhile) simp
    with sorted_nth_mono [OF assms(1) k assms(2)] less show False by simp
  qed
next
  assume "j < length (takeWhile (\<lambda>c. c < r) cp)"
  then show "cp ! j < r" by (metis nth_mem set_takeWhileD takeWhile_nth)
qed

lemma zipf_search_eq:
  assumes "sorted cp" and "1 \<le> low" and "high < int (length cp)" and "high < 2 ^ 30"
  shows "zipf_search cp r low high =
     (let k = int (length (takeWhile (\<lambda>c. c < r) cp)) in Inr (if low \<le> k \<and> k \<le> high then k else - 1))"
  using assms
proof (induction cp r low high rule: zipf_search.induct)
  case (1 cp r low high)
  let ?k = "length (takeWhile (\<lambda>c. c < r) cp)" and ?mid = "(low + high) div 2"
  show ?case
  proof (cases "low \<le> high")
    case True
    with "1.prems" have mid: "low \<le> ?mid" "?mid \<le> high" "1 \<le> ?mid" "?mid < int (length cp)" by auto
    have sum: "\<not> low + high > INT_MAX" using "1.prems"(4) True by simp
    have up: "cp ! nat ?mid < r \<longleftrightarrow> ?mid < int ?k"
      using sorted_below_iff [OF "1.prems"(1), of "nat ?mid" r] mid by linarith
    have down: "r \<le> cp ! nat (?mid - 1) \<longleftrightarrow> int ?k < ?mid"
      using sorted_below_iff [OF "1.prems"(1), of "nat (?mid - 1)" r] mid by linarith
    show ?thesis
      using "1.IH" [OF True sum refl] "1.prems" True sum mid
      by (subst zipf_search.simps) (auto simp: Let_def up down)
  qed (subst zipf_search.simps, simp add: Let_def)
qed

lemma zipf_search_range:
  assumes "zipf_search cp r low high = Inr v"
  shows "v = - 1 \<or> low \<le> v \<and> v \<le> high"
  using assms
proof (induction cp r low high rule: zipf_search.induct)
  case (1 cp r low high)
  let ?mid = "(low + high) div 2"
  from "1.prems" show ?case
    by (subst (asm) zipf_search.simps)
       (auto simp: Let_def split: if_splits dest: "1.IH"(1) [rotated -1] "1.IH"(2) [rotated -1])
qed

lemma zipf_search_total:
  assumes "1 \<le> low" and "high < int (length cp)" and "high < 2 ^ 30"
  shows "\<exists>v. zipf_search cp r low high = Inr v"
  using assms
proof (induction cp r low high rule: zipf_search.induct)
  case (1 cp r low high)
  show ?case
  proof (cases "low \<le> high")
    case True
    with "1.prems" show ?thesis
      using "1.IH" by (subst zipf_search.simps) (auto simp: Let_def)
  qed (subst zipf_search.simps, simp)
qed

section \<open>The table\<close>

lemma dbl_pow_nonneg: "fpu_ok F \<Longrightarrow> dbl_nonneg (dbl_pow F (Suc i) s)"
  by (simp add: dbl_pow_def dbl_nonneg_to_dbl fpu_okD)

lemma harmonic_nonneg: "fpu_ok F \<Longrightarrow> dbl_nonneg (harmonic F s i)"
  by (induction i) (simp_all add: dbl_nonneg_ops dbl_pow_nonneg)

lemma c_prob_nonneg: "fpu_ok F \<Longrightarrow> dbl_nonneg h \<Longrightarrow> dbl_nonneg (c_prob F s h i)"
  by (induction i) (simp_all add: dbl_nonneg_ops dbl_pow_nonneg)

lemma c_prob_rounded: "fpu_ok F \<Longrightarrow> c_prob F s h i = Dbl x \<Longrightarrow> rnd F x = x"
  by (cases i) (auto simp: fpu_okD dbl_add_eq_Dbl)

text \<open>Where the sums stay finite they grow.\<close>

lemma c_prob_step:
  assumes "fpu_ok F" and "dbl_nonneg h" and "c_prob F s h (Suc i) = Dbl y"
  shows "\<exists>x. c_prob F s h i = Dbl x \<and> x \<le> y"
proof -
  let ?p = "dbl_recip F (dbl_mul F (dbl_pow F (Suc i) s) h)"
  obtain x p where xp: "c_prob F s h i = Dbl x" "?p = Dbl p" "y = rnd F (x + p)"
    using assms(3) by (auto simp: dbl_add_eq_Dbl)
  have "dbl_nonneg ?p" using assms(1,2) by (simp add: dbl_nonneg_ops dbl_pow_nonneg)
  then have "rnd F x \<le> y" using xp fpu_okD(1) [OF assms(1)] by simp
  then show ?thesis using xp(1) c_prob_rounded [OF assms(1) xp(1)] by simp
qed

lemma c_prob_mono:
  assumes "fpu_ok F" and "dbl_nonneg h" and "i \<le> j" and "c_prob F s h j = Dbl y"
  shows "\<exists>x. c_prob F s h i = Dbl x \<and> x \<le> y"
  using assms(3,4)
proof (induction j arbitrary: y rule: dec_induct)
  case (step j)
  then show ?case using c_prob_step [OF assms(1,2) step.prems] by (meson order.trans)
qed simp

lemma new_zipfgen_Inr:
  assumes "new_zipfgen F n s = Inr z"
  shows "0 \<le> n" and "n < INT_MAX" and "zipf_n z = n" and "int (length (c_probs z)) = n + 1"
    and "c_probs z ! 0 = 0"
    and "1 \<le> i \<Longrightarrow> i \<le> nat n \<Longrightarrow>
      int_of_dbl (dbl_mul F (c_prob F s (harmonic F s (nat n)) i) (Dbl (of_int RAND_MAX))) = Inr (c_probs z ! i)"
proof -
  let ?f = "\<lambda>i. int_of_dbl (dbl_mul F (c_prob F s (harmonic F s (nat n)) i) (Dbl (of_int RAND_MAX)))"
  obtain cs where z: "n < INT_MAX" "0 \<le> n" "map_res ?f [1..<nat n + 1] = Inr cs"
      "z = \<lparr>c_probs = 0 # cs, zipf_h = harmonic F s (nat n), zipf_s = s, zipf_n = n\<rparr>"
    using assms by (auto simp: new_zipfgen_def Let_def split: if_splits sum.splits)
  have cs: "length cs = nat n" "\<And>j. j < nat n \<Longrightarrow> ?f (Suc j) = Inr (cs ! j)"
    using z(3) by (auto simp: map_res_eq_Inr list_all2_conv_all_nth simp del: upt_Suc)
  show "0 \<le> n" "n < INT_MAX" "zipf_n z = n" "int (length (c_probs z)) = n + 1" "c_probs z ! 0 = 0"
    using z cs(1) by simp_all
  show "?f i = Inr (c_probs z ! i)" if "1 \<le> i" "i \<le> nat n"
    using cs(2) [of "i - 1"] that z(4) by (cases i) auto
qed

lemma new_zipfgen_sorted:
  assumes "fpu_ok F" and "new_zipfgen F n s = Inr z"
  shows "sorted (c_probs z)"
  unfolding sorted_iff_nth_Suc
proof (intro allI impI)
  let ?h = "harmonic F s (nat n)"
  fix i
  assume i: "Suc i < length (c_probs z)"
  then have n: "Suc i \<le> nat n" using new_zipfgen_Inr(4) [OF assms(2)] by linarith
  have h: "dbl_nonneg ?h" using assms(1) by (rule harmonic_nonneg)
  obtain y where y: "c_prob F s ?h (Suc i) = Dbl y" "c_probs z ! Suc i = trunc (rnd F (y * of_int RAND_MAX))"
    using new_zipfgen_Inr(6) [OF assms(2) _ n] by (auto simp: int_of_dbl_Inr dbl_mul_eq_Dbl simp del: c_prob.simps)
  obtain x where x: "c_prob F s ?h i = Dbl x" "x \<le> y" using c_prob_step [OF assms(1) h y(1)] by blast
  have nonneg: "0 \<le> x" using c_prob_nonneg [OF assms(1) h, of s i] x(1) by simp
  have entry: "c_probs z ! i = trunc (rnd F (x * of_int RAND_MAX))"
  proof (cases "i = 0")
    case True
    then show ?thesis using x(1) new_zipfgen_Inr(5) [OF assms(2)] assms(1) by (simp add: fpu_okD)
  next
    case False
    then show ?thesis
      using new_zipfgen_Inr(6) [OF assms(2), of i] n x(1) by (auto simp: int_of_dbl_Inr to_dbl_eq_Dbl)
  qed
  have "0 \<le> rnd F (x * of_int RAND_MAX)" using assms(1) nonneg by (simp add: rnd_nonneg RAND_MAX_def)
  moreover have "rnd F (x * of_int RAND_MAX) \<le> rnd F (y * of_int RAND_MAX)"
    using x(2) by (intro fpu_okD(1) [OF assms(1)] mult_right_mono) (simp_all add: RAND_MAX_def)
  ultimately show "c_probs z ! i \<le> c_probs z ! Suc i" using entry y(2) by (simp add: trunc_mono)
qed

text \<open>
  What the packet builder and the client rely on: a draw yields a rank between 1 and \<open>n\<close> or the error
  value \<open>-1\<close>, and it does not fail where the table is fit for the search.
\<close>

locale rank_source =
  fixes gen :: "'g \<Rightarrow> int res \<times> 'g" and n :: int and fit :: bool
  assumes gen_range: "fst (gen g) = Inr v \<Longrightarrow> v = - 1 \<or> 1 \<le> v \<and> v \<le> n"
    and gen_total: "fit \<Longrightarrow> \<exists>v. fst (gen g) = Inr v"
begin

text \<open>The index computed from a draw by \<open>const uint32_t src_idx = gen() - 1\<close>.\<close>

lemma draw_index:
  assumes "fst (gen g) = Inr v" and "v \<noteq> - 1" and "n \<le> INT_MAX"
  shows "int (unat (word_of_int (v - 1) :: u32)) < n" and "int (unat (word_of_int (v - 1) :: u32)) = v - 1"
proof -
  have v: "1 \<le> v" "v \<le> n" using gen_range [OF assms(1)] assms(2) by auto
  with assms(3) have "0 \<le> v - 1" "v - 1 < 2 ^ 32" by auto
  then show eq: "int (unat (word_of_int (v - 1) :: u32)) = v - 1"
    by (rule unat_word_of_int_u32)
  show "int (unat (word_of_int (v - 1) :: u32)) < n" using eq v by linarith
qed

lemma draw_succeeds: "fit \<Longrightarrow> \<exists>v. fst (gen g) = Inr v \<and> (v = - 1 \<or> 1 \<le> v \<and> v \<le> n)"
  using gen_total gen_range by blast

end

interpretation zipf: rank_source "number_from_zipf_distribution z" "zipf_n z" "searchable z" for z
proof
  show "v = - 1 \<or> 1 \<le> v \<and> v \<le> zipf_n z" if "fst (number_from_zipf_distribution z g) = Inr v" for g v
    using zipf_search_range [of "c_probs z" _ 1 "zipf_n z" v] that
    by (simp add: number_from_zipf_distribution_def case_prod_beta)
  show "\<exists>v. fst (number_from_zipf_distribution z g) = Inr v" if "searchable z" for g
    using zipf_search_total [of 1 "zipf_n z" "c_probs z"] that
    by (simp add: number_from_zipf_distribution_def case_prod_beta searchable_def)
qed

lemma new_zipfgen_searchable: "new_zipfgen F n s = Inr z \<Longrightarrow> n < 2 ^ 30 \<Longrightarrow> searchable z"
  by (simp add: searchable_def new_zipfgen_Inr(1,3,4))

text \<open>C13. Drawing from a Zipf table of fewer than \<open>2 ^ 30\<close> ranks whose construction succeeded (every
  entry fits an \<open>int\<close>) terminates, reads only inside the table, does not overflow, and gives the rank
  a linear scan of the table gives: the binary search is an optimisation of the scan, for every
  rounding of the arithmetic that filled the table.\<close>

theorem number_from_zipf_scan:
  assumes "fpu_ok F" and "new_zipfgen F n s = Inr z" and "n < 2 ^ 30"
  shows "number_from_zipf_distribution z g = (Inr (zipf_scan (c_probs z) (fst (myrand g))), snd (myrand g))"
proof -
  have z: "sorted (c_probs z)" "searchable z" "c_probs z \<noteq> []"
    using new_zipfgen_sorted [OF assms(1,2)] new_zipfgen_searchable [OF assms(2,3)] by (auto simp: searchable_def)
  have "zipf_search (c_probs z) r 1 (zipf_n z) = Inr (zipf_scan (c_probs z) r)" for r
    using z by (subst zipf_search_eq) (auto simp: searchable_def zipf_scan_def Let_def Suc_le_eq)
  then show ?thesis by (simp add: number_from_zipf_distribution_def case_prod_beta)
qed

text \<open>C35. Which random numbers give which rank, in a table of fewer than \<open>2 ^ 30\<close> ranks whose
  construction succeeded: rank \<open>v\<close> is drawn for the numbers above the previous table entry and up to
  its own, so for exactly as many of them as its share of the table; the result is the error value
  \<open>-1\<close> for 0 and for numbers above the last entry, and for no others.\<close>

theorem zipf_search_rank:
  assumes "fpu_ok F" and "new_zipfgen F n s = Inr z" and "n < 2 ^ 30"
  shows "zipf_search (c_probs z) r 1 n = Inr v \<longleftrightarrow>
     1 \<le> v \<and> v \<le> n \<and> c_probs z ! nat (v - 1) < r \<and> r \<le> c_probs z ! nat v \<or>
     v = - 1 \<and> (r \<le> 0 \<or> c_probs z ! nat n < r)"
proof -
  let ?cp = "c_probs z"
  define k where "k = length (takeWhile (\<lambda>c. c < r) ?cp)"
  note z = new_zipfgen_Inr [OF assms(2)]
  have sorted: "sorted ?cp" using assms(1,2) by (rule new_zipfgen_sorted)
  have below: "?cp ! j < r \<longleftrightarrow> int j < int k" if "int j \<le> n" for j
    using sorted_below_iff [OF sorted, of j r] that z(4) by (simp add: k_def)
  have ends: "r \<le> 0 \<longleftrightarrow> k = 0" "?cp ! nat n < r \<longleftrightarrow> n < int k"
    using below [of 0] below [of "nat n"] z(1,5) by auto
  have "1 \<le> v \<and> v \<le> n \<and> ?cp ! nat (v - 1) < r \<and> r \<le> ?cp ! nat v \<longleftrightarrow> 1 \<le> v \<and> v \<le> n \<and> v = int k"
    using below [of "nat v"] below [of "nat (v - 1)"] by auto
  moreover have "zipf_search ?cp r 1 n = Inr (if 1 \<le> int k \<and> int k \<le> n then int k else - 1)"
    using zipf_search_eq [OF sorted, of 1 n r] z(4) assms(3) by (simp add: Let_def k_def)
  ultimately show ?thesis using z(1) by (simp only: ends) auto
qed

text \<open>A uniform table of four ranks, without rounding.\<close>

lemma harmonic_uniform: "real n \<le> 2 ^ 64 \<Longrightarrow> harmonic exact_fpu 0 n = Dbl (real n)"
  by (induction n) (simp_all add: exact_fpu_def dbl_pow_def to_dbl_def DBL_MAX_large)

lemma c_prob_uniform:
  "0 < h \<Longrightarrow> h \<le> 2 ^ 64 \<Longrightarrow> real i \<le> h \<Longrightarrow> c_prob exact_fpu 0 (Dbl h) i = Dbl (real i / h)"
  by (induction i) (simp_all add: exact_fpu_def dbl_pow_def to_dbl_def DBL_MAX_large field_simps)

definition uniform_gen :: zipfgen where
  "uniform_gen = \<lparr>c_probs = [0, 536870911, 1073741823, 1610612735, 2147483647], zipf_h = Dbl 4, zipf_s = 0, zipf_n = 4\<rparr>"

lemma uniform_table: "new_zipfgen exact_fpu 4 0 = Inr uniform_gen"
proof -
  have four: "[1..<nat 4 + 1] = [1, 2, 3, 4 :: nat]" by (simp add: upt_rec)
  have h: "harmonic exact_fpu 0 (nat 4) = Dbl 4" by (subst harmonic_uniform) simp_all
  have mul: "dbl_mul exact_fpu (Dbl x) (Dbl y) = Dbl (x * y)" if "x * y \<le> 2 ^ 64" for x y
    using that by (simp add: exact_fpu_def to_dbl_def DBL_MAX_large)
  show ?thesis
    by (simp only: new_zipfgen_def Let_def h four map_res.simps)
       (simp add: c_prob_uniform mul RAND_MAX_def trunc_def uniform_gen_def del: c_prob.simps dbl_mul.simps)
qed

text \<open>A table of one rank.\<close>

definition single_gen :: "real \<Rightarrow> zipfgen" where
  "single_gen s = \<lparr>c_probs = [0, 2147483647], zipf_h = Dbl 1, zipf_s = s, zipf_n = 1\<rparr>"

lemma single_table: "new_zipfgen exact_fpu 1 s = Inr (single_gen s)"
proof -
  have pow: "dbl_pow exact_fpu (Suc 0) s = Dbl 1"
    by (simp add: dbl_pow_def exact_fpu_def to_dbl_def DBL_MAX_large)
  have ops: "dbl_add exact_fpu (Dbl 0) (Dbl 1) = Dbl 1" "dbl_recip exact_fpu (Dbl 1) = Dbl 1"
    "dbl_mul exact_fpu (Dbl 1) (Dbl 1) = Dbl 1" "dbl_mul exact_fpu (Dbl 1) (Dbl 2147483647) = Dbl 2147483647"
    by (simp_all add: exact_fpu_def to_dbl_def DBL_MAX_large)
  have h: "harmonic exact_fpu s (Suc 0) = Dbl 1" "c_prob exact_fpu s (Dbl 1) (Suc 0) = Dbl 1"
    by (simp_all add: pow ops del: dbl_add.simps dbl_mul.simps dbl_recip.simps)
  show ?thesis
    by (simp add: new_zipfgen_def Let_def h ops RAND_MAX_def trunc_def single_gen_def upt_rec
        del: harmonic.simps c_prob.simps dbl_mul.simps)
qed

theorem number_from_zipf_scan_witness:
  "fst (number_from_zipf_distribution uniform_gen
     (rng_init\<lparr>need_init := False, srendipity := (\<lambda>_. 1000000000)\<rparr>)) = Inr 2"
  using number_from_zipf_scan [OF exact_fpu_ok uniform_table, of "rng_init\<lparr>need_init := False, srendipity := (\<lambda>_. 1000000000)\<rparr>"]
  by (simp add: uniform_gen_def myrand_def rng_init_def zipf_scan_def)

theorem zipf_search_rank_witness:
  "zipf_search [0, 536870911, 1073741823, 1610612735, 2147483647] 1000000000 1 4 = Inr 2 \<and>
   zipf_search [0, 536870911, 1073741823, 1610612735, 2147483647] 0 1 4 = Inr (- 1)"
proof -
  note rank = zipf_search_rank [OF exact_fpu_ok uniform_table]
  show ?thesis using rank [of 1000000000 2] rank [of 0 "- 1"] by (simp add: uniform_gen_def)
qed

section \<open>The table of random numbers\<close>

lemma lcg_range: "0 \<le> fst (lcg x) \<and> fst (lcg x) < RAND_MAX"
proof -
  have "uint (w mod 2147483647 :: u64) < 2147483647" for w
    by (simp add: uint_mod)
  then show ?thesis by (simp add: lcg_def Let_def RAND_MAX_def)
qed

lemma fill_table_eq:
  "fill_table i n x tab =
     ((\<lambda>j. if i \<le> j \<and> j < i + n then fst (lcg ((lcg_next ^^ (j - i)) x)) else tab j),
      (lcg_next ^^ n) x)"
proof (induction n arbitrary: i x tab)
  case (Suc n)
  have "(lcg_next ^^ (j - Suc i)) (lcg_next x) = (lcg_next ^^ (j - i)) x" if "i < j" for j
  proof -
    have "j - i = Suc (j - Suc i)" using that by simp
    then show ?thesis by (simp only: funpow_Suc_right o_apply)
  qed
  then show ?case
    by (auto simp: Suc.IH case_prod_beta fun_eq_iff lcg_next_def [symmetric] funpow_swap1 not_less_eq_eq le_Suc_eq)
qed (auto simp: fun_eq_iff)

lemma myrand_inv:
  assumes "rng_inv k g"
  shows "fst (myrand g) = lcg_stream (k mod rand_sz) \<and> rng_inv (Suc k) (snd (myrand g))"
proof -
  have "k mod rand_sz < rand_sz" by (simp add: rand_sz_def)
  then show ?thesis
    using assms by (auto simp: myrand_def rng_inv_def Let_def fill_table_eq lcg_stream_def mod_Suc_eq)
qed

lemma rng_after_inv: "rng_inv k (rng_after k)"
proof (induction k)
  case 0
  then show ?case by (simp add: rng_after_def rng_inv_def rng_init_def)
next
  case (Suc k)
  then show ?case using myrand_inv [of k "rng_after k"] by (simp add: rng_after_def)
qed

text \<open>C37. The calls of \<open>myrand\<close> run through the first \<open>2 ^ 25\<close> outputs of the congruential
  generator and then start over, and every number lies in \<open>[0, RAND_MAX)\<close>.\<close>

theorem myrand_stream:
  "fst (myrand (rng_after k)) = lcg_stream (k mod rand_sz) \<and>
   0 \<le> fst (myrand (rng_after k)) \<and> fst (myrand (rng_after k)) < RAND_MAX"
  using myrand_inv [OF rng_after_inv, of k] lcg_range by (simp add: lcg_stream_def)

end
