(* ===== verification/Packet.thy ===== *)
theory Packet
  imports Headers Zipf
begin

text \<open>
  The packets the load generator sends, from \<open>include/client/prepare_packet.h\<close>,
  \<open>prepare_tcp_pkt.h\<close> and \<open>write_payload.h\<close>: Ethernet, optional VLAN, IPv4 and UDP or TCP headers
  written into a fresh buffer, the choice of the source address, and the payload with its
  timestamp or random number. A pointer into a buffer is an offset; the payload pointer is
  \<open>None\<close> when \<open>rte_pktmbuf_append\<close> returned a null pointer, and writing through it is an
  error. The lemmas show every field of the packets, their lengths, and the payload's round
  trip.
\<close>

section \<open>Model of \<open>prepare_packet.h\<close>\<close>

datatype client_addr_selection = FIX_CLIENT_ADDR | ZIPF_CLIENT_ADDR

record zipf_client_addr =
  src_zipf :: zipfgen
  count_port :: u64

record prepare_packet_info =
  pi_use_vlan :: bool
  pi_client_address_selection :: client_addr_selection
  pi_src_mac :: ether_addr
  pi_dst_mac :: ether_addr
  pi_src_ip :: u32
  pi_dst_ip :: u32
  pi_src_port :: u16
  pi_dst_port :: u16
  pi_tci :: u16
  pi_payload_length :: u16
  pi_client_addr_select_info :: "zipf_client_addr option"

definition ethernet_header :: "dpdk \<Rightarrow> mem \<Rightarrow> nat \<Rightarrow> ether_addr \<Rightarrow> ether_addr \<Rightarrow> u16 \<Rightarrow> mem" where
  "ethernet_header d f eth_hdr src dst ether_type =
     (let f = st_mac f (eth_hdr + ETH_SRC) src;
          f = st_mac f (eth_hdr + ETH_DST) dst
      in st16 f (eth_hdr + ETH_TYPE) (rte_cpu_to_be_16 d ether_type))"

definition ipv4_header :: "dpdk \<Rightarrow> mem \<Rightarrow> nat \<Rightarrow> u32 \<Rightarrow> u32 \<Rightarrow> mem" where
  "ipv4_header d f ip src_ip dst_ip =
     (let f = st8 f (ip + IP_VERSION_IHL) 0x45;
          f = st8 f (ip + IP_TOS) 0;
          f = st16 f (ip + IP_PACKET_ID) 0;
          f = st16 f (ip + IP_FRAGMENT_OFFSET) 0;
          f = st8 f (ip + IP_TTL) 64;
          f = st16 f (ip + IP_CKSUM) 0;
          f = st32 f (ip + IP_SRC) (rte_cpu_to_be_32 d src_ip)
      in st32 f (ip + IP_DST) (rte_cpu_to_be_32 d dst_ip))"

text \<open>The \<open>switch\<close> on the address selection. The generator's number minus one is converted to
  \<open>uint32_t\<close>; the quotient and remainder are taken in 64 bits.\<close>

definition select_client_addr ::
  "prepare_packet_info \<Rightarrow> rng \<Rightarrow> (prepare_packet_info \<times> rng) res" where
  "select_client_addr info g =
     (case pi_client_address_selection info of
        FIX_CLIENT_ADDR \<Rightarrow> Inr (info, g)
      | ZIPF_CLIENT_ADDR \<Rightarrow>
          (case pi_client_addr_select_info info of
             None \<Rightarrow> Inl Null_Deref
           | Some t \<Rightarrow>
               (case number_from_zipf_distribution (src_zipf t) g of
                  (Inl e, g) \<Rightarrow> Inl e
                | (Inr v, g) \<Rightarrow>
                    let src_idx = (word_of_int (v - 1) :: u32)
                    in if count_port t = 0 then Inl Div_By_Zero
                       else let ip_offset = (ucast (ucast src_idx div count_port t) :: u32);
                                port_offset = (ucast (ucast src_idx mod count_port t) :: u32)
                            in Inr (info\<lparr>pi_src_ip := pi_src_ip info + ip_offset,
                                        pi_src_port := pi_src_port info + ucast port_offset\<rparr>, g))))"

text \<open>\<open>_prepare_eth_vlan_ip\<close>: the buffer, the changed \<open>info\<close>, the generator, and the offset of the
  IPv4 header.\<close>

definition prepare_eth_vlan_ip ::
  "dpdk \<Rightarrow> mbuf \<Rightarrow> prepare_packet_info \<Rightarrow> rng \<Rightarrow> (mbuf \<times> prepare_packet_info \<times> rng \<times> nat) res" where
  "prepare_eth_vlan_ip d buf info g =
     on_append d buf (of_nat ETHER_HDR_LEN) (\<lambda>eth buf.
       let l2 = (if \<not> pi_use_vlan info
             then Inr (buf\<lparr>pkt := ethernet_header d (pkt buf) eth (pi_src_mac info) (pi_dst_mac info)
                                 RTE_ETHER_TYPE_IPV4, l2_len := ETHER_HDR_LEN\<rparr>)
             else let buf = buf\<lparr>pkt := ethernet_header d (pkt buf) eth (pi_src_mac info) (pi_dst_mac info)
                                         RTE_ETHER_TYPE_VLAN\<rparr>
                  in on_append d buf (of_nat VLAN_HDR_LEN) (\<lambda>vlan buf.
                       let f = st16 (pkt buf) (vlan + VLAN_TCI) (rte_cpu_to_be_16 d (pi_tci info));
                           f = st16 f (vlan + VLAN_PROTO) (rte_cpu_to_be_16 d RTE_ETHER_TYPE_IPV4)
                       in Inr (buf\<lparr>pkt := f, l2_len := ETHER_HDR_LEN + VLAN_HDR_LEN\<rparr>)))
       in case l2 of
            Inl e \<Rightarrow> Inl e
          | Inr buf \<Rightarrow>
              (case select_client_addr info g of
                 Inl e \<Rightarrow> Inl e
               | Inr (info, g) \<Rightarrow>
                   on_append d buf (of_nat IPV4_HDR_LEN) (\<lambda>ip buf.
                     Inr (buf\<lparr>pkt := ipv4_header d (pkt buf) ip (pi_src_ip info) (pi_dst_ip info),
                              l3_len := IPV4_HDR_LEN\<rparr>, info, g, ip))))"

text \<open>\<open>prepare_udp\<close>; the last component is \<open>*out_payload\<close>.\<close>

definition prepare_udp ::
  "dpdk \<Rightarrow> mbuf \<Rightarrow> prepare_packet_info \<Rightarrow> rng \<Rightarrow> (mbuf \<times> prepare_packet_info \<times> rng \<times> nat option) res" where
  "prepare_udp d buf info g =
     (case prepare_eth_vlan_ip d buf info g of
        Inl e \<Rightarrow> Inl e
      | Inr (buf, info, g, ip) \<Rightarrow>
          let dgram_len = of_nat UDP_HDR_LEN + pi_payload_length info;
              total_length = of_nat IPV4_HDR_LEN + dgram_len;
              f = st8 (pkt buf) (ip + IP_PROTO) IPPROTO_UDP;
              f = st16 f (ip + IP_TOTAL_LENGTH) (rte_cpu_to_be_16 d total_length)
          in on_append d (buf\<lparr>pkt := f\<rparr>) (of_nat UDP_HDR_LEN) (\<lambda>udp buf.
             let f = st16 (pkt buf) (udp + UDP_SRC) (rte_cpu_to_be_16 d (pi_src_port info));
                 f = st16 f (udp + UDP_DST) (rte_cpu_to_be_16 d (pi_dst_port info));
                 f = st16 f (udp + UDP_LEN) (rte_cpu_to_be_16 d dgram_len);
                 f = st16 f (udp + UDP_CKSUM) 0;
                 (out_payload, buf) = rte_pktmbuf_append d (buf\<lparr>pkt := f\<rparr>) (pi_payload_length info)
             in Inr (buf\<lparr>ol_flags := {F_TX_IP_CKSUM, F_TX_IPV4, F_TX_UDP_CKSUM}\<rparr>, info, g, out_payload)))"

section \<open>Model of \<open>prepare_tcp_pkt.h\<close>\<close>

abbreviation (input) "KATRAN_TCP_HDR_OPT_KIND_TPR \<equiv> 0xB7 :: u8"
abbreviation (input) "KATRAN_TCP_HDR_OPT_LEN_TPR \<equiv> 6 :: nat"
abbreviation (input) "TCP_NOP_OPT \<equiv> 1 :: u8"
abbreviation (input) "RTE_TCP_PSH_FLAG \<equiv> 0x08 :: u8"
abbreviation (input) "RTE_TCP_ACK_FLAG \<equiv> 0x10 :: u8"

text \<open>The server id put into the option: \<open>myrand() % add_katran_option\<close> in unsigned arithmetic,
  with 0 replaced by 1.\<close>

definition katran_srv_id :: "u32 \<Rightarrow> int \<Rightarrow> u32" where
  "katran_srv_id add_katran_option r =
     (let srv_id = word_of_int r mod add_katran_option in if srv_id = 0 then 1 else srv_id)"

text \<open>The option itself: two no-operation bytes, then \<open>struct katran_srv_opt\<close>, packed.\<close>

definition katran_option :: "mem \<Rightarrow> nat \<Rightarrow> u32 \<Rightarrow> mem" where
  "katran_option f p srv_id =
     (let f = st8 f p TCP_NOP_OPT;
          f = st8 f (p + 1) TCP_NOP_OPT;
          f = st8 f (p + 2) KATRAN_TCP_HDR_OPT_KIND_TPR;
          f = st8 f (p + 3) (of_nat KATRAN_TCP_HDR_OPT_LEN_TPR)
      in st32 f (p + 4) srv_id)"

definition prepare_tcp ::
  "dpdk \<Rightarrow> mbuf \<Rightarrow> prepare_packet_info \<Rightarrow> u32 \<Rightarrow> rng \<Rightarrow> (mbuf \<times> prepare_packet_info \<times> rng \<times> nat option) res" where
  "prepare_tcp d buf info add_katran_option g =
     (case prepare_eth_vlan_ip d buf info g of
        Inl e \<Rightarrow> Inl e
      | Inr (buf, info, g, ip) \<Rightarrow>
          let count_noop_opt = (if add_katran_option > 0 then 2 else 0);
              size_tcp_opts = (if add_katran_option > 0 then KATRAN_TCP_HDR_OPT_LEN_TPR + count_noop_opt else 0);
              hdr_size = TCP_HDR_LEN + size_tcp_opts;
              f = st8 (pkt buf) (ip + IP_PROTO) IPPROTO_TCP;
              f = st16 f (ip + IP_TOTAL_LENGTH)
                    (rte_cpu_to_be_16 d (of_nat (IPV4_HDR_LEN + hdr_size + unat (pi_payload_length info))))
          in if size_tcp_opts mod 4 \<noteq> 0 then Inl Assert_Failed
             else on_append d (buf\<lparr>pkt := f\<rparr>) (of_nat TCP_HDR_LEN) (\<lambda>tcp buf.
             let f = st16 (pkt buf) (tcp + TCP_SRC) (rte_cpu_to_be_16 d (pi_src_port info));
                 f = st16 f (tcp + TCP_DST) (rte_cpu_to_be_16 d (pi_dst_port info));
                 f = st32 f (tcp + TCP_SEQ) 123;
                 f = st32 f (tcp + TCP_ACK) 321;
                 f = st8 f (tcp + TCP_DATA_OFF) (push_bit 4 (of_nat (hdr_size div 4) AND 0xF));
                 f = st8 f (tcp + TCP_FLAGS) (RTE_TCP_ACK_FLAG OR RTE_TCP_PSH_FLAG);
                 f = st16 f (tcp + TCP_WIN) 256;
                 f = st16 f (tcp + TCP_CKSUM) 0;
                 f = st16 f (tcp + TCP_URP) 0;
                 buf = buf\<lparr>pkt := f\<rparr>;
                 opts = (if add_katran_option > 0
                   then on_append d buf (of_nat size_tcp_opts) (\<lambda>p buf.
                          let (r, g) = myrand g
                          in Inr (buf\<lparr>pkt := katran_option (pkt buf) p (katran_srv_id add_katran_option r)\<rparr>, g))
                   else Inr (buf, g))
             in case opts of
                  Inl e \<Rightarrow> Inl e
                | Inr (buf, g) \<Rightarrow>
                    let (out_payload, buf) = rte_pktmbuf_append d buf (pi_payload_length info)
                    in Inr (buf\<lparr>ol_flags := {F_TX_IP_CKSUM, F_TX_IPV4, F_TX_TCP_CKSUM}\<rparr>, info, g, out_payload)))"

section \<open>Model of \<open>write_payload.h\<close>\<close>

definition PAYLOAD :: string where
  "PAYLOAD =
     ''rtqeijsuiggqlxkuuvsoerdzvgbphgpyrkecwbsynngpruiubtgzcwtfltjmmnpwapcbyioboiqdbxebcrqyehebez'' @
     ''bdwyrvdbhxfsbearajfmmscsinujutdqcftxchgzptyfypojbmnpjovoartkwupbfowfvxhfimrltocjoousmumwrq'' @
     ''vjxukjtztcyahxfoldflyquyixahobffjawyzzaawghbjgfhpajqevfflpgoiiotkqjbajhhvyhmnydmkxbrgpbavc'' @
     ''daanjopmnsewoebkqgqcbvxsblfgulcogxeqkaxnytevmpwobljlxtjhygawmbhktewhbiytjlmjxxtfmwytlogigv'' @
     ''pfsgihyxgkmskppxikspqmnrarxbzihzwqufsltxiioyvcsrhjiqlcfqcavtxsrbqnogyxwerqlpiwextpuxvmflwb'' @
     ''azjynzeiprcttniqtmdusjxwqfdzfocowaywwnmedqjfizajdqbetslgjqzsvadscxbdwrywffiwlgybupukobjpjl'' @
     ''spaofjkmhszxzskirdieshmpfqsggjnhyiiadaumiisuontoomswlyhiyuwaupjwfjdeulymoqvmrwlncncqdaobnf'' @
     ''mbiknxwadgbrpsfixqhnbbgnacuoivmlyxzflqnoobpqffnmkpxkzcyvoqnjvibphoxueqkjqhvgjurnxchlbncxvv'' @
     ''beettppluoxtzewefcaktcupcqueeymcyietauqtgycceyhfqpawsnydcuehnjfpkpnsvmpieauhoawchmpiymzirh'' @
     ''vfxcnrtdsgmxoblqycfzfsgzvtdwdhcqtakezphfntfsxagkrtwofqsaipibbzqydlcvlungidzgqmkkreznoutrcl'' @
     ''ipksaaefpokubbycpkpfddceydjxjmdpryujwqqpeohbmyhwrgeqtsirfykynkelarbjdfycjzjfuzcitiaadbfvwl'' @
     ''wteefdsqvzarxhrtbsjeppkpszjrdfvkufynwvihygfykpvitpaqnxdedkytwlkcbttogfaqdsveqrtymflcxhvbum'' @
     ''cifjklzpcqhfbpbwhyoaekjpcisswegubzcyjdwzyqxsshkpdsynfofowakfmasnudmzazgdxvvtajatwxskuitxjo'' @
     ''ewuvbhhhjdhqozoqfvquyioizhlqwqyaidvokcfbcsgnhfmthsmktbntvoleaeznatmmuawslyinilsvefdizgnbna'' @
     ''yaxhzxxphuyzyfycmrsmidqlglknsxchkqstcsqaofvxgscfqsqlfvcwvbnhrxdclzxwettbkpsfyaafowvhlgmgle'' @
     ''saehsionovcshwkxfxtaczcxpgzevwrbclqtkfhfbuztqhcylyufuhbcjodlxyssvvikfalxdxadvllbhyxelqsade'' @
     ''uxpjnochcxdlgxgjzderdhnwahmuzbqtwpnsuwhhxfwcbuahkgctljjqvqct''"

text \<open>The string with its terminating null byte, as \<open>rte_memcpy\<close> sees it.\<close>

definition payload_bytes :: "u8 list" where
  "payload_bytes = map (\<lambda>c. of_char c) PAYLOAD @ [0]"

text \<open>The number of bytes to copy is computed in \<open>size_t\<close>: it wraps for payloads shorter than
  eight bytes. Copying past the end of the string literal is an error.\<close>

definition payload_constant_num :: "nat option \<Rightarrow> u64 \<Rightarrow> u64 \<Rightarrow> mbuf \<Rightarrow> mbuf res" where
  "payload_constant_num payload payload_length num buf =
     (case payload of
        None \<Rightarrow> Inl Null_Deref
      | Some p \<Rightarrow>
          let f = st64 (pkt buf) p num;
              n = unat (payload_length - 8)
          in if length payload_bytes < n then Inl (Out_Of_Bounds n)
             else Inr (buf\<lparr>pkt := st_bytes f (p + 8) (take n payload_bytes)\<rparr>))"

definition payload_timestamp :: "dpdk \<Rightarrow> nat option \<Rightarrow> u64 \<Rightarrow> mbuf \<Rightarrow> trace \<Rightarrow> (mbuf \<times> trace) res" where
  "payload_timestamp d payload payload_length buf t =
     (let (timestamp, t) = timer_cycles d t
      in case payload_constant_num payload payload_length timestamp buf of
           Inl e \<Rightarrow> Inl e
         | Inr buf \<Rightarrow> Inr (buf, t))"

text \<open>The static generator \<open>zgen\<close> is an argument; \<open>None\<close> is the null pointer.\<close>

definition initialize_num_gen :: "fpu \<Rightarrow> zipfgen option \<Rightarrow> int \<Rightarrow> real \<Rightarrow> zipfgen option res" where
  "initialize_num_gen F zgen max_num s =
     (case new_zipfgen F max_num s of Inl e \<Rightarrow> Inl e | Inr z \<Rightarrow> Inr (Some z))"

definition payload_random_num ::
  "zipfgen option \<Rightarrow> nat option \<Rightarrow> u64 \<Rightarrow> mbuf \<Rightarrow> rng \<Rightarrow> (mbuf \<times> rng) res" where
  "payload_random_num zgen payload payload_length buf g =
     (case zgen of
        None \<Rightarrow> Inr (buf, g)
      | Some z \<Rightarrow>
          (case number_from_zipf_distribution z g of
             (Inl e, g) \<Rightarrow> Inl e
           | (Inr v, g) \<Rightarrow>
               (case payload_constant_num payload payload_length (word_of_int (v - 1)) buf of
                  Inl e \<Rightarrow> Inl e
                | Inr buf \<Rightarrow> Inr (buf, g))))"

section \<open>Specification\<close>

text \<open>Where the IPv4 header starts.\<close>

definition ip_offset_of :: "bool \<Rightarrow> nat" where
  "ip_offset_of use_vlan = (if use_vlan then ETHER_HDR_LEN + VLAN_HDR_LEN else ETHER_HDR_LEN)"

text \<open>The link and network headers of a packet made from \<open>info\<close>, for the protocol \<open>proto\<close> and
  \<open>len\<close> bytes behind the IPv4 header.\<close>

definition ip_frame :: "dpdk \<Rightarrow> prepare_packet_info \<Rightarrow> u8 \<Rightarrow> u16 \<Rightarrow> mbuf \<Rightarrow> bool" where
  "ip_frame d info proto len b \<longleftrightarrow>
     (let f = pkt b; ip = ip_offset_of (pi_use_vlan info) in
      l2_len b = ip \<and> l3_len b = IPV4_HDR_LEN \<and>
      ld_mac f ETH_DST = pi_dst_mac info \<and> ld_mac f ETH_SRC = pi_src_mac info \<and>
      ld16 f ETH_TYPE = rte_cpu_to_be_16 d (if pi_use_vlan info then RTE_ETHER_TYPE_VLAN else RTE_ETHER_TYPE_IPV4) \<and>
      (if pi_use_vlan info
       then ld16 f (ETHER_HDR_LEN + VLAN_TCI) = rte_cpu_to_be_16 d (pi_tci info) \<and>
            ld16 f (ETHER_HDR_LEN + VLAN_PROTO) = rte_cpu_to_be_16 d RTE_ETHER_TYPE_IPV4 else True) \<and>
      ld8 f (ip + IP_VERSION_IHL) = 0x45 \<and> ld8 f (ip + IP_TOS) = 0 \<and>
      ld16 f (ip + IP_TOTAL_LENGTH) = rte_cpu_to_be_16 d (20 + len) \<and>
      ld16 f (ip + IP_PACKET_ID) = 0 \<and> ld16 f (ip + IP_FRAGMENT_OFFSET) = 0 \<and>
      ld8 f (ip + IP_TTL) = 64 \<and> ld8 f (ip + IP_PROTO) = proto \<and> ld16 f (ip + IP_CKSUM) = 0 \<and>
      ld32 f (ip + IP_SRC) = rte_cpu_to_be_32 d (pi_src_ip info) \<and>
      ld32 f (ip + IP_DST) = rte_cpu_to_be_32 d (pi_dst_ip info))"

definition udp_frame :: "dpdk \<Rightarrow> prepare_packet_info \<Rightarrow> mbuf \<Rightarrow> bool" where
  "udp_frame d info b \<longleftrightarrow>
     (let f = pkt b; udp = ip_offset_of (pi_use_vlan info) + IPV4_HDR_LEN in
      ip_frame d info IPPROTO_UDP (8 + pi_payload_length info) b \<and>
      data_len b = udp + UDP_HDR_LEN + unat (pi_payload_length info) \<and>
      ol_flags b = {F_TX_IP_CKSUM, F_TX_IPV4, F_TX_UDP_CKSUM} \<and>
      ld16 f (udp + UDP_SRC) = rte_cpu_to_be_16 d (pi_src_port info) \<and>
      ld16 f (udp + UDP_DST) = rte_cpu_to_be_16 d (pi_dst_port info) \<and>
      ld16 f (udp + UDP_LEN) = rte_cpu_to_be_16 d (8 + pi_payload_length info) \<and>
      ld16 f (udp + UDP_CKSUM) = 0)"

text \<open>The TCP header is followed by an eight byte option when servers are to be selected.\<close>

definition tcp_hdr_size :: "u32 \<Rightarrow> nat" where
  "tcp_hdr_size add_katran_option = (if add_katran_option > 0 then TCP_HDR_LEN + 8 else TCP_HDR_LEN)"

definition katran_frame :: "mem \<Rightarrow> nat \<Rightarrow> u32 \<Rightarrow> bool" where
  "katran_frame f p servers \<longleftrightarrow>
     ld8 f p = TCP_NOP_OPT \<and> ld8 f (p + 1) = TCP_NOP_OPT \<and>
     ld8 f (p + 2) = KATRAN_TCP_HDR_OPT_KIND_TPR \<and> ld8 f (p + 3) = 6 \<and>
     0 < ld32 f (p + 4) \<and> ld32 f (p + 4) \<le> max 1 (servers - 1)"

definition tcp_frame :: "dpdk \<Rightarrow> prepare_packet_info \<Rightarrow> u32 \<Rightarrow> mbuf \<Rightarrow> bool" where
  "tcp_frame d info servers b \<longleftrightarrow>
     (let f = pkt b; tcp = ip_offset_of (pi_use_vlan info) + IPV4_HDR_LEN; hdr = tcp_hdr_size servers in
      ip_frame d info IPPROTO_TCP (of_nat hdr + pi_payload_length info) b \<and>
      data_len b = tcp + hdr + unat (pi_payload_length info) \<and>
      ol_flags b = {F_TX_IP_CKSUM, F_TX_IPV4, F_TX_TCP_CKSUM} \<and>
      ld16 f (tcp + TCP_SRC) = rte_cpu_to_be_16 d (pi_src_port info) \<and>
      ld16 f (tcp + TCP_DST) = rte_cpu_to_be_16 d (pi_dst_port info) \<and>
      ld32 f (tcp + TCP_SEQ) = 123 \<and> ld32 f (tcp + TCP_ACK) = 321 \<and>
      ld8 f (tcp + TCP_DATA_OFF) = push_bit 4 (of_nat (hdr div 4)) \<and>
      ld8 f (tcp + TCP_FLAGS) = 0x18 \<and> ld16 f (tcp + TCP_WIN) = 256 \<and>
      ld16 f (tcp + TCP_CKSUM) = 0 \<and> ld16 f (tcp + TCP_URP) = 0 \<and>
      (if servers > 0 then katran_frame f (tcp + TCP_HDR_LEN) servers else True))"

text \<open>Values for the examples: a device that never moves a packet, and two packets to send.\<close>

definition idle_sim :: dpdk where
  "idle_sim = sim (\<lambda>_. 77) (\<lambda>_ _. []) (\<lambda>_. 0) (Ether_Addr 2 0 0 0 0 1)"

definition info_example :: "bool \<Rightarrow> prepare_packet_info" where
  "info_example use_vlan =
     \<lparr>pi_use_vlan = use_vlan, pi_client_address_selection = FIX_CLIENT_ADDR,
      pi_src_mac = Ether_Addr 2 0 0 0 0 1, pi_dst_mac = Ether_Addr 2 0 0 0 0 2,
      pi_src_ip = 0xC0A80101, pi_dst_ip = 0xC0A80102, pi_src_port = 3000, pi_dst_port = 8080,
      pi_tci = 5, pi_payload_length = 64, pi_client_addr_select_info = None\<rparr>"

definition zipf_info_example :: prepare_packet_info where
  "zipf_info_example = (info_example False)\<lparr>pi_client_address_selection := ZIPF_CLIENT_ADDR,
     pi_client_addr_select_info := Some \<lparr>src_zipf = uniform_gen, count_port = 2\<rparr>\<rparr>"

definition rng_example :: "int \<Rightarrow> rng" where
  "rng_example r = rng_init\<lparr>need_init := False, srendipity := (\<lambda>_. r)\<rparr>"

section \<open>UDP packets\<close>

lemma select_client_addr_keeps:
  assumes "select_client_addr info g = Inr (info', g')"
  shows "pi_use_vlan info' = pi_use_vlan info" "pi_src_mac info' = pi_src_mac info"
    "pi_dst_mac info' = pi_dst_mac info" "pi_dst_ip info' = pi_dst_ip info"
    "pi_dst_port info' = pi_dst_port info" "pi_tci info' = pi_tci info"
    "pi_payload_length info' = pi_payload_length info"
  using assms
  by (auto simp: select_client_addr_def Let_def
      split: client_addr_selection.splits option.splits prod.splits sum.splits if_splits)

lemma prepare_udp_frame:
  assumes "append_ok d" and "data_len buf = 0" and sel: "select_client_addr info g = Inr (info', g')"
    and "ip_offset_of (pi_use_vlan info) + 28 + unat (pi_payload_length info) \<le> data_room d (buf_addr buf)"
  shows "\<exists>b. prepare_udp d buf info g = Inr (b, info', g', Some (ip_offset_of (pi_use_vlan info) + 28)) \<and>
     buf_addr b = buf_addr buf \<and> udp_frame d info' b"
proof (cases "pi_use_vlan info")
  case True
  then show ?thesis
    using assms select_client_addr_keeps [OF sel] append_ok_def [of d]
    by (simp add: prepare_udp_def prepare_eth_vlan_ip_def ethernet_header_def ipv4_header_def Let_def
        ip_offset_of_def udp_frame_def ip_frame_def cell_simps)
next
  case False
  then show ?thesis
    using assms select_client_addr_keeps [OF sel] append_ok_def [of d]
    by (simp add: prepare_udp_def prepare_eth_vlan_ip_def ethernet_header_def ipv4_header_def Let_def
        ip_offset_of_def udp_frame_def ip_frame_def cell_simps)
qed

section \<open>TCP packets\<close>

lemma katran_srv_id_bounds: "0 < katran_srv_id k r \<and> (0 < k \<longrightarrow> katran_srv_id k r \<le> max 1 (k - 1))"
proof -
  have less: "x \<le> k - 1" if "x < k" for x :: u32
    using that by unat_arith
  have "w mod k \<le> k - 1" if "0 < k" for w :: u32
    using word_mod_less_divisor [OF that, of w] by (rule less)
  then show ?thesis by (auto simp: katran_srv_id_def Let_def word_gt_0 le_max_iff_disj)
qed

lemma katran_option_frame:
  "0 < k \<Longrightarrow> katran_frame (katran_option f p (katran_srv_id k r)) p k"
  using katran_srv_id_bounds [of k r] by (simp add: katran_frame_def katran_option_def cell_simps)

lemma katran_option_other:
  "p + 8 \<le> q \<or> q + 1 \<le> p \<Longrightarrow> ld8 (katran_option f p v) q = ld8 f q"
  "p + 8 \<le> q \<or> q + 2 \<le> p \<Longrightarrow> ld16 (katran_option f p v) q = ld16 f q"
  "p + 8 \<le> q \<or> q + 4 \<le> p \<Longrightarrow> ld32 (katran_option f p v) q = ld32 f q"
  "p + 8 \<le> q \<or> q + 6 \<le> p \<Longrightarrow> ld_mac (katran_option f p v) q = ld_mac f q"
  by (auto simp: katran_option_def cell_simps)

lemma prepare_tcp_frame:
  assumes "append_ok d" and "data_len buf = 0" and sel: "select_client_addr info g = Inr (info', g')"
    and room: "ip_offset_of (pi_use_vlan info) + 20 + tcp_hdr_size servers + unat (pi_payload_length info)
           \<le> data_room d (buf_addr buf)"
  shows "\<exists>b g''. prepare_tcp d buf info servers g =
       Inr (b, info', g'', Some (ip_offset_of (pi_use_vlan info) + 20 + tcp_hdr_size servers)) \<and>
     buf_addr b = buf_addr buf \<and> tcp_frame d info' servers b"
proof -
  note defs = prepare_tcp_def prepare_eth_vlan_ip_def ethernet_header_def ipv4_header_def Let_def
    ip_offset_of_def tcp_frame_def ip_frame_def tcp_hdr_size_def cell_simps
  show ?thesis
    using assms select_client_addr_keeps [OF sel] append_ok_def [of d]
    by (cases "pi_use_vlan info"; cases "servers > 0")
      (simp_all add: defs katran_option_other katran_option_frame case_prod_beta)
qed

section \<open>The choice of the source address\<close>

lemma ucast_div_mod:
  "(ucast (ucast (w :: u32) div (c :: u64)) :: u32) = of_nat (unat w div unat c)"
  "(ucast (ucast (ucast (w :: u32) mod (c :: u64)) :: u32) :: u16) = of_nat (unat w mod unat c)"
proof -
  have "unat w < 2 ^ 64" using unat_bound(3) [of w] by (rule order.strict_trans) simp
  then have w: "unat (ucast w :: u64) = unat w"
    by (simp add: unsigned_ucast_eq take_bit_nat_eq_self)
  show "(ucast (ucast w div c) :: u32) = of_nat (unat w div unat c)"
    by (metis of_nat_unat unat_div w)
  have "unat (of_nat (unat w mod unat c) :: u32) = unat w mod unat c"
    by (rule le_unat_uoi [of _ w]) (rule mod_less_eq_dividend)
  then have "unat (ucast (ucast w mod c) :: u32) = unat w mod unat c"
    by (metis of_nat_unat unat_mod w)
  then show "(ucast (ucast (ucast w mod c) :: u32) :: u16) = of_nat (unat w mod unat c)"
    by (metis of_nat_unat)
qed

text \<open>Which address the draw of rank \<open>v\<close> selects.\<close>

lemma select_client_addr_draw:
  assumes "pi_client_address_selection info = ZIPF_CLIENT_ADDR"
    and "pi_client_addr_select_info info = Some \<lparr>src_zipf = z, count_port = cp\<rparr>"
    and "0 < cp" and "new_zipfgen F n s = Inr z"
    and draw: "number_from_zipf_distribution z g = (Inr v, g')" and "v \<noteq> - 1"
  shows "\<exists>i < 2 ^ 32. int i = v - 1 \<and> select_client_addr info g =
     Inr (info\<lparr>pi_src_ip := pi_src_ip info + of_nat (i div unat cp),
               pi_src_port := pi_src_port info + of_nat (i mod unat cp)\<rparr>, g')"
proof -
  let ?w = "word_of_int (v - 1) :: u32"
  have "fst (number_from_zipf_distribution z g) = Inr v" "zipf_n z \<le> INT_MAX"
    using draw new_zipfgen_Inr(2,3) [OF assms(4)] by simp_all
  note i = zipf.draw_index [OF this(1) assms(6) this(2)]
  have "select_client_addr info g =
     Inr (info\<lparr>pi_src_ip := pi_src_ip info + of_nat (unat ?w div unat cp),
               pi_src_port := pi_src_port info + of_nat (unat ?w mod unat cp)\<rparr>, g')"
    using assms(1-3) draw by (simp add: select_client_addr_def Let_def ucast_div_mod del: of_nat_unat)
  with i(2) unat_bound(3) [of ?w] show ?thesis by (intro exI [of _ "unat ?w"]) simp
qed

text \<open>Distinct indices give distinct offsets as long as the ports fit in 16 bits.\<close>

lemma offsets_inject:
  assumes "i < 2 ^ 32" and "j < 2 ^ 32" and "0 < c" and "c \<le> 2 ^ 16"
    and ip: "(of_nat (i div c) :: u32) = of_nat (j div c)"
    and port: "(of_nat (i mod c) :: u16) = of_nat (j mod c)"
  shows "i = j"
proof -
  have small: "i div c < 2 ^ 32" "j div c < 2 ^ 32" "i mod c < 2 ^ 16" "j mod c < 2 ^ 16"
    using assms(1-4) div_le_dividend [of i c] div_le_dividend [of j c]
      mod_less_divisor [of c i] mod_less_divisor [of c j] by linarith+
  have "i div c = j div c" using arg_cong [OF ip, of unat] small by (simp add: unat_of_nat)
  moreover have "i mod c = j mod c" using arg_cong [OF port, of unat] small by (simp add: unat_of_nat)
  ultimately show ?thesis by (metis div_mult_mod_eq)
qed

section \<open>The payload\<close>

lemma length_payload_bytes: "length payload_bytes = 1501"
  by (simp add: payload_bytes_def PAYLOAD_def)

lemma payload_constant_num_ok:
  assumes "8 \<le> len" and "len \<le> 1509"
  shows "payload_constant_num (Some p) len num buf =
     Inr (buf\<lparr>pkt := st_bytes (st64 (pkt buf) p num) (p + 8) (take (unat len - 8) payload_bytes)\<rparr>)"
proof -
  have "unat (len - 8) = unat len - 8" using assms(1) by unat_arith
  moreover have "unat len \<le> 1509" using assms(2) by unat_arith
  ultimately show ?thesis by (simp add: payload_constant_num_def length_payload_bytes Let_def)
qed

lemma payload_constant_num_bad:
  assumes "len < 8 \<or> 1509 < len"
  shows "payload_constant_num (Some p) len num buf = Inl (Out_Of_Bounds (unat (len - 8)))"
proof -
  have "1501 < unat (len - 8)"
  proof (cases "8 \<le> len")
    case True
    with assms show ?thesis by unat_arith
  next
    case False
    then have "unat (len - 8) = unat len + 2 ^ 64 - 8" by unat_arith simp
    then show ?thesis by simp
  qed
  then show ?thesis by (simp add: payload_constant_num_def length_payload_bytes)
qed

section \<open>Properties\<close>

text \<open>C14. The UDP packet: when the buffer is empty and has room, \<open>prepare_udp\<close> succeeds and every
  field of the Ethernet, VLAN (if used), IPv4 and UDP headers, the packet's length, the header
  lengths and the offload flags are as \<open>udp_frame\<close> says, for the addresses the selection chose;
  the payload starts right behind the UDP header.\<close>

theorem prepare_udp_fields:
  assumes "append_ok d" and "data_len buf = 0" and "select_client_addr info g = Inr (info', g')"
    and "ip_offset_of (pi_use_vlan info) + 28 + unat (pi_payload_length info) \<le> data_room d (buf_addr buf)"
  shows "\<exists>b. prepare_udp d buf info g = Inr (b, info', g', Some (ip_offset_of (pi_use_vlan info) + 28)) \<and>
     buf_addr b = buf_addr buf \<and> udp_frame d info' b"
  using assms by (rule prepare_udp_frame)

text \<open>C15. The TCP packet, with or without the server selection option: every field of the Ethernet,
  VLAN (if used), IPv4 and TCP headers is as \<open>tcp_frame\<close> says, including the sequence and
  acknowledgement numbers, the window, a data offset byte that names the true header size, and
  an option whose server id is never 0 and stays below the number of servers (1 when there is only one).\<close>

theorem prepare_tcp_fields:
  assumes "append_ok d" and "data_len buf = 0" and "select_client_addr info g = Inr (info', g')"
    and "ip_offset_of (pi_use_vlan info) + 20 + tcp_hdr_size servers + unat (pi_payload_length info)
           \<le> data_room d (buf_addr buf)"
  shows "\<exists>b g''. prepare_tcp d buf info servers g =
       Inr (b, info', g'', Some (ip_offset_of (pi_use_vlan info) + 20 + tcp_hdr_size servers)) \<and>
     buf_addr b = buf_addr buf \<and> tcp_frame d info' servers b"
  using assms by (rule prepare_tcp_frame)

text \<open>C32. Selecting the source address by a Zipf draw: two draws of ranks \<open>v\<close> and \<open>w\<close> give the same
  pair of source address and source port exactly when the ranks are equal, provided there are
  between 1 and 65536 ports per address; so the generator really produces the requested number
  of distinct clients, and the offset of the port stays below the number of ports.\<close>

theorem select_client_addr_distinct:
  assumes "pi_client_address_selection info = ZIPF_CLIENT_ADDR"
    and "pi_client_addr_select_info info = Some \<lparr>src_zipf = z, count_port = cp\<rparr>"
    and "0 < cp" and "cp \<le> 65536" and "new_zipfgen F n s = Inr z"
    and "number_from_zipf_distribution z g = (Inr v, g')" and "v \<noteq> - 1"
    and "number_from_zipf_distribution z h = (Inr w, h')" and "w \<noteq> - 1"
  shows "\<exists>x y. select_client_addr info g = Inr (x, g') \<and> select_client_addr info h = Inr (y, h') \<and>
     unat (pi_src_port x - pi_src_port info) < unat cp \<and>
     ((pi_src_ip x, pi_src_port x) = (pi_src_ip y, pi_src_port y) \<longleftrightarrow> v = w)"
proof -
  obtain i where i: "i < 2 ^ 32" "int i = v - 1" "select_client_addr info g =
     Inr (info\<lparr>pi_src_ip := pi_src_ip info + of_nat (i div unat cp),
               pi_src_port := pi_src_port info + of_nat (i mod unat cp)\<rparr>, g')"
    using select_client_addr_draw [OF assms(1-3,5-7)] by blast
  obtain j where j: "j < 2 ^ 32" "int j = w - 1" "select_client_addr info h =
     Inr (info\<lparr>pi_src_ip := pi_src_ip info + of_nat (j div unat cp),
               pi_src_port := pi_src_port info + of_nat (j mod unat cp)\<rparr>, h')"
    using select_client_addr_draw [OF assms(1-3,5,8,9)] by blast
  have cp: "0 < unat cp" "unat cp \<le> 2 ^ 16" using assms(3,4) by unat_arith+
  have ij: "i = j \<longleftrightarrow> v = w" using i(2) j(2) by linarith
  have "i mod unat cp < unat cp" using cp(1) by simp
  then have "unat (of_nat (i mod unat cp) :: u16) < unat cp"
    using mod_less_eq_dividend [of "i mod unat cp" "2 ^ 16"] by (simp add: unat_of_nat)
  moreover have "of_nat (i div unat cp) = (of_nat (j div unat cp) :: u32) \<and>
      of_nat (i mod unat cp) = (of_nat (j mod unat cp) :: u16) \<longleftrightarrow> v = w"
    using offsets_inject [of i j "unat cp"] i(1) j(1) cp ij by auto
  ultimately show ?thesis using i(3) j(3) by simp
qed

text \<open>C34. The timestamp survives in the payload: for payloads of 8 to 1509 bytes the 64 bit number
  at the start of the payload is the timer reading, the rest of the payload is the beginning of
  the fixed text, and no byte in front of or behind the payload changes.\<close>

theorem payload_timestamp_roundtrip:
  assumes "8 \<le> len" and "len \<le> 1509"
  shows "\<exists>b. payload_timestamp d (Some p) len buf t =
       Inr (b, Timer_Read (rte_get_timer_cycles d t) # t) \<and>
     ld64 (pkt b) p = rte_get_timer_cycles d t \<and>
     (\<forall>i < unat len - 8. pkt b (p + 8 + i) = payload_bytes ! i) \<and>
     (\<forall>i. i < p \<or> p + unat len \<le> i \<longrightarrow> pkt b i = pkt buf i) \<and>
     b\<lparr>pkt := pkt buf\<rparr> = buf"
proof -
  have len: "8 \<le> unat len" "unat len \<le> 1509" using assms by unat_arith+
  show ?thesis
    using len by (auto simp: payload_timestamp_def trace_simps payload_constant_num_ok [OF assms]
        cell_simps length_payload_bytes)
qed

text \<open>Payload sizes the code cannot handle: a packet whose payload could not be appended has no
  payload pointer, and writing the timestamp dereferences a null pointer; with fewer than 8
  bytes the length of the copy wraps around, and with more than 1509 bytes the copy runs past
  the end of the text.\<close>

lemma payload_timestamp_bad:
  assumes "payload = None \<or> len < 8 \<or> 1509 < len"
  shows "payload_timestamp d payload len buf t =
     Inl (if payload = None then Null_Deref else Out_Of_Bounds (unat (len - 8)))"
  using assms payload_constant_num_bad [of len]
  by (auto simp: payload_timestamp_def trace_simps payload_constant_num_def split: option.splits)

section \<open>Examples\<close>

lemma idle_sim_ok: "append_ok idle_sim" "data_room idle_sim a = 1920"
  by (simp add: idle_sim_def) (simp add: idle_sim_def sim_def)

theorem prepare_udp_fields_witness:
  "\<exists>b. prepare_udp idle_sim (empty_mbuf 3) (info_example True) rng_init = Inr (b, info_example True, rng_init, Some 46) \<and>
     udp_frame idle_sim (info_example True) b"
  using prepare_udp_fields [OF idle_sim_ok(1), of "empty_mbuf 3" "info_example True" rng_init "info_example True" rng_init]
  by (auto simp: idle_sim_ok empty_mbuf_def info_example_def select_client_addr_def ip_offset_of_def)

theorem prepare_tcp_fields_witness:
  "\<exists>b g. prepare_tcp idle_sim (empty_mbuf 3) (info_example False) 10 rng_init = Inr (b, info_example False, g, Some 62) \<and>
     tcp_frame idle_sim (info_example False) 10 b"
  using prepare_tcp_fields [OF idle_sim_ok(1), of "empty_mbuf 3" "info_example False" rng_init "info_example False" rng_init 10]
  by (auto simp: idle_sim_ok empty_mbuf_def info_example_def select_client_addr_def ip_offset_of_def tcp_hdr_size_def)

lemma draw_example:
  "number_from_zipf_distribution uniform_gen (rng_example 1000000000) = (Inr 2, rng_example 1000000000\<lparr>rand_ptr := 1\<rparr>)"
  "number_from_zipf_distribution uniform_gen (rng_example 2000000000) = (Inr 4, rng_example 2000000000\<lparr>rand_ptr := 1\<rparr>)"
  by (simp_all add: number_from_zipf_distribution_def uniform_gen_def myrand_def rng_example_def rng_init_def
      rand_sz_def zipf_search.simps)

theorem select_client_addr_distinct_witness:
  "\<exists>x y g h. select_client_addr zipf_info_example (rng_example 1000000000) = Inr (x, g) \<and>
     select_client_addr zipf_info_example (rng_example 2000000000) = Inr (y, h) \<and>
     unat (pi_src_port x - 3000) < 2 \<and> (pi_src_ip x, pi_src_port x) \<noteq> (pi_src_ip y, pi_src_port y)"
  using select_client_addr_distinct [OF _ _ _ _ uniform_table draw_example(1) _ draw_example(2), of zipf_info_example 2]
  by (simp add: zipf_info_example_def info_example_def) blast

theorem payload_timestamp_roundtrip_witness:
  "\<exists>b. payload_timestamp idle_sim (Some 42) 64 (empty_mbuf 3) [] = Inr (b, [Timer_Read 77]) \<and>
     ld64 (pkt b) 42 = 77 \<and> pkt b 50 = 0x72"
  using payload_timestamp_roundtrip [of 64 idle_sim 42 "empty_mbuf 3" "[]"]
  by (fastforce simp: idle_sim_def sim_def payload_bytes_def PAYLOAD_def dest: spec [of _ 0])

end
