(* ===== verification/Percentile.thy ===== *)
theory Percentile
  imports Fpu
begin

text \<open>
  The latency histogram of \<open>utils/percentile.c\<close>: buckets whose bounds grow by the factor
  \<open>r2\<close>, one counter per bucket, and the percentile found by interpolation inside the bucket
  where the cumulative frequency passes the requested one. The counters are C \<open>int\<close>s whose
  overflow is an error. A quotient by zero is not a finite number: the value \<open>None\<close>.
\<close>

section \<open>Model\<close>

record p_hist =
  count_bucket :: int
  count_values :: int
  buckets :: "int list"

definition r2 :: "fpu \<Rightarrow> real" where
  "r2 F = rnd F 1.4142"

definition inv_log_r2 :: "fpu \<Rightarrow> real" where
  "inv_log_r2 F = rnd F 2.885390082"

definition new_p_hist :: "int \<Rightarrow> p_hist" where
  "new_p_hist n = \<lparr>count_bucket = n, count_values = 0, buckets = replicate (nat n) 0\<rparr>"

definition new_p_hist_from_max_value :: "fpu \<Rightarrow> real \<Rightarrow> p_hist" where
  "new_p_hist_from_max_value F max_value =
     new_p_hist (trunc (rnd F (rnd F (c_log F max_value * inv_log_r2 F) + 1)))"

text \<open>The bucket of a value, before it is limited to the last one.\<close>

definition bucket_index :: "fpu \<Rightarrow> real \<Rightarrow> int" where
  "bucket_index F value =
     (if value < r2 F then 0 else trunc (rnd F (c_log F value * inv_log_r2 F)))"

definition add_number_to_p_hist :: "fpu \<Rightarrow> p_hist \<Rightarrow> real \<Rightarrow> p_hist res" where
  "add_number_to_p_hist F hist value =
     (let index = bucket_index F value;
          index = (if index \<ge> count_bucket hist then count_bucket hist - 1 else index)
      in if index < 0 \<or> int (length (buckets hist)) \<le> index then Inl (Out_Of_Bounds (nat index))
         else if INT_MAX \<le> buckets hist ! nat index \<or> INT_MAX \<le> count_values hist then Inl Int_Overflow
         else Inr (hist\<lparr>buckets := (buckets hist)[nat index := buckets hist ! nat index + 1],
                        count_values := count_values hist + 1\<rparr>))"

definition fdiv :: "fpu \<Rightarrow> real \<Rightarrow> real \<Rightarrow> real option" where
  "fdiv F x y = (if y = 0 then None else Some (rndf F (x / y)))"

text \<open>\<open>y1 >= y\<close> is false when \<open>y1\<close> is not a number.\<close>

fun fge :: "real option \<Rightarrow> real \<Rightarrow> bool" where
  "fge None y = False"
| "fge (Some y1) y = (y1 \<ge> y)"

text \<open>The loop over the buckets from bucket \<open>i\<close> on: the index where it stops, \<open>y0\<close> and \<open>y1\<close>.\<close>

fun pct_loop ::
  "fpu \<Rightarrow> int \<Rightarrow> real \<Rightarrow> nat \<Rightarrow> int list \<Rightarrow> real \<Rightarrow> real option \<Rightarrow> real option \<Rightarrow> nat \<times> real option \<times> real option" where
  "pct_loop F n y i [] tmp y0 y1 = (i, y0, y1)"
| "pct_loop F n y i (b # bs) tmp y0 y1 =
     (let y0 = y1;
          tmp = rndf F (tmp + rndf F (of_int b));
          y1 = fdiv F tmp (rndf F (of_int n))
      in if fge y1 y then (i, y0, y1) else pct_loop F n y (Suc i) bs tmp y0 y1)"

definition get_percentile :: "fpu \<Rightarrow> p_hist \<Rightarrow> real \<Rightarrow> real option" where
  "get_percentile F hist percentile =
     (let y = percentile;
          (i, y0, y1) = pct_loop F (count_values hist) y 0 (buckets hist) 0 (Some 0) (Some 0);
          (x0, x1) = (if i = 0 then (0, rndf F (r2 F))
                      else (rndf F (c_pow F (r2 F) (real i)), rndf F (c_pow F (r2 F) (real (i + 1)))));
          x1 = (if x1 > rndf F (of_int (count_values hist)) then rndf F (of_int (count_values hist)) else x1)
      in Option.bind y0 (\<lambda>y0. Option.bind y1 (\<lambda>y1.
         Option.bind (fdiv F (rndf F (y - y0)) (rndf F (y1 - y0))) (\<lambda>q.
           Some (rndf F (x0 + rndf F (rndf F (x1 - x0) * q)))))))"

section \<open>Specification\<close>

text \<open>The histogram's invariant: the total is the sum of the buckets.\<close>

definition hist_inv :: "p_hist \<Rightarrow> bool" where
  "hist_inv h \<longleftrightarrow> 0 < count_bucket h \<and> int (length (buckets h)) = count_bucket h \<and>
     list_all (\<lambda>b. 0 \<le> b) (buckets h) \<and> sum_list (buckets h) = count_values h"

text \<open>What IEEE single precision guarantees beyond \<open>fpu_ok\<close>: integers of up to 24 bits are exact, and the
  difference of two different numbers is not 0 (gradual underflow).\<close>

definition float_ok :: "fpu \<Rightarrow> bool" where
  "float_ok F \<longleftrightarrow> (\<forall>k. 0 \<le> k \<longrightarrow> k \<le> 2 ^ 24 \<longrightarrow> rndf F (of_int k) = of_int k) \<and>
     (\<forall>x y. rndf F x = x \<longrightarrow> rndf F y = y \<longrightarrow> rndf F (x - y) = 0 \<longrightarrow> x = y)"

text \<open>The logarithm of the library is monotone and not negative from 1 on.\<close>

definition log_ok :: "fpu \<Rightarrow> bool" where
  "log_ok F \<longleftrightarrow> (\<forall>x y. 0 < x \<longrightarrow> x \<le> y \<longrightarrow> c_log F x \<le> c_log F y) \<and> (\<forall>x. 1 \<le> x \<longrightarrow> 0 \<le> c_log F x) \<and>
     1 \<le> rnd F 1.4142"

definition clip_index :: "p_hist \<Rightarrow> int \<Rightarrow> nat" where
  "clip_index h i = nat (min i (count_bucket h - 1))"

text \<open>The fraction of the values in the first \<open>i\<close> buckets, rounded once; the lower bound of bucket
  \<open>i\<close>; and its upper bound, limited by the number of values.\<close>

definition cum_freq :: "fpu \<Rightarrow> p_hist \<Rightarrow> nat \<Rightarrow> real" where
  "cum_freq F h i = rndf F (of_int (sum_list (take i (buckets h))) / of_int (count_values h))"

definition bucket_low :: "fpu \<Rightarrow> nat \<Rightarrow> real" where
  "bucket_low F i = (if i = 0 then 0 else rndf F (c_pow F (r2 F) (real i)))"

definition bucket_high :: "fpu \<Rightarrow> p_hist \<Rightarrow> nat \<Rightarrow> real" where
  "bucket_high F h i =
     min (rndf F (if i = 0 then r2 F else c_pow F (r2 F) (real (i + 1)))) (of_int (count_values h))"

text \<open>Linear interpolation, every operation rounded.\<close>

definition interpolate :: "fpu \<Rightarrow> real \<Rightarrow> real \<Rightarrow> real \<Rightarrow> real \<Rightarrow> real \<Rightarrow> real" where
  "interpolate F x0 x1 y0 y1 y =
     rndf F (x0 + rndf F (rndf F (x1 - x0) * rndf F (rndf F (y - y0) / rndf F (y1 - y0))))"

section \<open>Adding values\<close>

lemma exact_log_ok: "log_ok exact_fpu"
  by (auto simp: log_ok_def exact_fpu_def)

lemma bucket_index_nonneg:
  assumes "fpu_ok F" and "log_ok F"
  shows "0 \<le> bucket_index F v"
proof -
  have "0 \<le> c_log F v * inv_log_r2 F" if "r2 F \<le> v"
    using that assms by (auto simp: log_ok_def r2_def inv_log_r2_def intro!: mult_nonneg_nonneg rnd_nonneg)
  then show ?thesis
    using assms(1) by (auto simp: bucket_index_def not_less intro!: trunc_nonneg rnd_nonneg)
qed

lemma bucket_index_mono:
  assumes "fpu_ok F" and "log_ok F" and "v \<le> w"
  shows "bucket_index F v \<le> bucket_index F w"
proof (cases "v < r2 F")
  case True
  then show ?thesis using bucket_index_nonneg [OF assms(1,2), of w] by (simp add: bucket_index_def)
next
  case False
  have one: "1 \<le> v" using False assms(2) by (auto simp: log_ok_def r2_def)
  have inv: "0 \<le> inv_log_r2 F" using assms(1) by (simp add: inv_log_r2_def rnd_nonneg)
  have log: "0 \<le> c_log F v" "c_log F v \<le> c_log F w" using one assms(2,3) by (auto simp: log_ok_def)
  then have "c_log F v * inv_log_r2 F \<le> c_log F w * inv_log_r2 F" "0 \<le> c_log F v * inv_log_r2 F"
    using inv by (auto intro: mult_right_mono)
  then have "trunc (rnd F (c_log F v * inv_log_r2 F)) \<le> trunc (rnd F (c_log F w * inv_log_r2 F))"
    using assms(1) by (intro trunc_mono rnd_nonneg) (auto simp: fpu_okD)
  with False assms(3) show ?thesis by (simp add: bucket_index_def)
qed

text \<open>No bucket is above the total.\<close>

lemma bucket_le_total:
  assumes "hist_inv h" and "i < length (buckets h)"
  shows "buckets h ! i \<le> count_values h"
proof -
  have "\<And>x. x \<in> set (buckets h) \<Longrightarrow> 0 \<le> x" using assms(1) by (auto simp: hist_inv_def list_all_iff)
  then have "buckets h ! i \<le> sum_list (buckets h)" using assms(2) by (intro member_le_sum_list) auto
  then show ?thesis using assms(1) by (simp add: hist_inv_def)
qed

lemma add_number_full:
  assumes "fpu_ok F" and "log_ok F" and "hist_inv h" and "INT_MAX \<le> count_values h"
  shows "add_number_to_p_hist F h v = Inl Int_Overflow"
  using bucket_index_nonneg [OF assms(1,2), of v] assms(3,4)
  by (auto simp: add_number_to_p_hist_def Let_def hist_inv_def)

lemma add_number_eq:
  assumes "fpu_ok F" and "log_ok F" and "hist_inv h" and "count_values h < INT_MAX"
  shows "let i = clip_index h (bucket_index F v) in i < length (buckets h) \<and>
     add_number_to_p_hist F h v =
       Inr (h\<lparr>buckets := (buckets h)[i := buckets h ! i + 1], count_values := count_values h + 1\<rparr>)"
proof -
  let ?i = "clip_index h (bucket_index F v)"
  have i: "?i < length (buckets h)" "int ?i = min (bucket_index F v) (count_bucket h - 1)"
    using bucket_index_nonneg [OF assms(1,2), of v] assms(3) by (auto simp: clip_index_def hist_inv_def)
  then show ?thesis
    using bucket_le_total [OF assms(3) i(1)] bucket_index_nonneg [OF assms(1,2), of v] assms(3,4)
    by (cases "count_bucket h \<le> bucket_index F v")
       (auto simp: add_number_to_p_hist_def clip_index_def Let_def hist_inv_def)
qed

lemma sum_list_incr: "i < length xs \<Longrightarrow> sum_list (xs[i := xs ! i + 1]) = sum_list xs + (1 :: int)"
proof (induction xs arbitrary: i)
  case (Cons x xs)
  then show ?case by (cases i) simp_all
qed simp

lemma add_number_inv:
  assumes "fpu_ok F" and "log_ok F" and "hist_inv h" and "add_number_to_p_hist F h v = Inr h'"
  shows "hist_inv h' \<and> count_bucket h' = count_bucket h"
proof -
  let ?i = "clip_index h (bucket_index F v)"
  have i: "?i < length (buckets h)"
    and h': "h' = h\<lparr>buckets := (buckets h)[?i := buckets h ! ?i + 1], count_values := count_values h + 1\<rparr>"
    using add_number_eq [OF assms(1-3), of v] add_number_full [OF assms(1-3), of v] assms(4)
    by (cases "count_values h < INT_MAX"; auto simp: Let_def)+
  have "0 \<le> buckets h ! ?i" using assms(3) i by (simp add: hist_inv_def list_all_length)
  then have "list_all (\<lambda>b. 0 \<le> b) ((buckets h)[?i := buckets h ! ?i + 1])"
    using assms(3) i by (auto simp: hist_inv_def list_all_length nth_list_update)
  then show ?thesis
    using assms(3) i by (simp add: h' hist_inv_def sum_list_incr)
qed

lemma new_p_hist_inv: "0 < n \<Longrightarrow> hist_inv (new_p_hist n)"
  by (simp add: hist_inv_def new_p_hist_def list_all_length sum_list_replicate)

lemma add_numbers:
  assumes "fpu_ok F" and "log_ok F"
  shows "hist_inv h \<Longrightarrow> count_values h + int (length vs) \<le> INT_MAX \<Longrightarrow>
     \<exists>h'. fold_res (\<lambda>v h. add_number_to_p_hist F h v) vs h = Inr h' \<and> hist_inv h' \<and>
     count_bucket h' = count_bucket h \<and> count_values h' = count_values h + int (length vs) \<and>
     (\<forall>i < length (buckets h). buckets h' ! i =
        buckets h ! i + int (length (filter (\<lambda>v. clip_index h (bucket_index F v) = i) vs)))"
proof (induction vs arbitrary: h)
  case (Cons v vs)
  let ?i = "clip_index h (bucket_index F v)"
  let ?h1 = "h\<lparr>buckets := (buckets h)[?i := buckets h ! ?i + 1], count_values := count_values h + 1\<rparr>"
  have add: "add_number_to_p_hist F h v = Inr ?h1" and i: "?i < length (buckets h)"
    using add_number_eq [OF assms Cons.prems(1), of v] Cons.prems(2) by (auto simp: Let_def)
  have inv: "hist_inv ?h1" using add_number_inv [OF assms Cons.prems(1) add] by blast
  have clip: "clip_index ?h1 = clip_index h" by (simp add: clip_index_def fun_eq_iff)
  show ?case using Cons.IH [OF inv] Cons.prems(2) add i by (auto simp: clip nth_list_update)
qed simp

lemma add_numbers_overflow:
  assumes "fpu_ok F" and "log_ok F" and "hist_inv h" and "count_values h \<le> INT_MAX"
    and "INT_MAX < count_values h + int (length vs)"
  shows "fold_res (\<lambda>v h. add_number_to_p_hist F h v) vs h = Inl Int_Overflow"
proof -
  let ?k = "nat (INT_MAX - count_values h)"
  have k: "?k < length vs" "int ?k = INT_MAX - count_values h" using assms(4,5) by linarith+
  then have vs: "vs = take ?k vs @ vs ! ?k # drop (Suc ?k) vs" by (simp add: id_take_nth_drop)
  have len: "length (take ?k vs) = ?k" using k(1) by simp
  obtain h' where h': "fold_res (\<lambda>v h. add_number_to_p_hist F h v) (take ?k vs) h = Inr h'" "hist_inv h'"
    "count_values h' = count_values h + int ?k"
    using add_numbers [OF assms(1-3), of "take ?k vs"] len k(2) by auto
  have "add_number_to_p_hist F h' (vs ! ?k) = Inl Int_Overflow"
    using h'(3) k(2) by (intro add_number_full [OF assms(1,2) h'(2)]) simp
  then show ?thesis by (subst vs) (simp add: fold_res_append h'(1))
qed

section \<open>The percentile\<close>

lemma float_ok_diff: "float_ok F \<Longrightarrow> rndf F x = x \<Longrightarrow> rndf F y = y \<Longrightarrow> rndf F (x - y) = 0 \<Longrightarrow> x = y"
  by (simp add: float_ok_def)

lemma exact_float_ok: "float_ok exact_fpu"
  by (simp add: float_ok_def exact_fpu_def)

text \<open>Up to \<open>2 ^ 24\<close> values the sums are exact, and the loop finds the first bucket whose rounded
  frequency reaches \<open>y\<close>.\<close>

lemma pct_loop_finds:
  fixes F :: fpu and n :: int and q :: "int \<Rightarrow> real"
  defines "q \<equiv> \<lambda>c. rndf F (of_int c / of_int n)"
  assumes "float_ok F" and "0 < n" and "n \<le> 2 ^ 24"
  shows "0 \<le> c \<Longrightarrow> list_all (\<lambda>b. 0 \<le> b) bs \<Longrightarrow> c + sum_list bs \<le> 2 ^ 24 \<Longrightarrow> q c < y \<Longrightarrow> y \<le> q (c + sum_list bs) \<Longrightarrow>
     \<exists>j < length bs. q (c + sum_list (take j bs)) < y \<and> y \<le> q (c + sum_list (take (Suc j) bs)) \<and>
       pct_loop F n y i bs (of_int c) y0 (Some (q c)) =
         (i + j, Some (q (c + sum_list (take j bs))), Some (q (c + sum_list (take (Suc j) bs))))"
proof (induction bs arbitrary: c i y0)
  case (Cons b bs)
  have int_exact: "rndf F (of_int k) = of_int k" if "0 \<le> k" "k \<le> 2 ^ 24" for k
    using assms(2) that by (simp add: float_ok_def)
  have "0 \<le> sum_list bs" using Cons.prems(2) by (auto simp: list_all_iff intro: sum_list_nonneg)
  then have cb: "0 \<le> b" "b \<le> 2 ^ 24" "0 \<le> c + b" "c + b \<le> 2 ^ 24" using Cons.prems(1-3) by auto
  have step: "rndf F (of_int c + rndf F (of_int b)) = of_int (c + b)" "rndf F (of_int n) = of_int n"
    using int_exact [OF cb(1,2)] int_exact [OF cb(3,4)] int_exact [of n] assms(3,4) by simp_all
  have unfold: "pct_loop F n y i (b # bs) (of_int c) y0 (Some (q c)) =
      (if y \<le> q (c + b) then (i, Some (q c), Some (q (c + b)))
       else pct_loop F n y (Suc i) bs (of_int (c + b)) (Some (q c)) (Some (q (c + b))))"
    using assms(3) by (simp add: step fdiv_def q_def Let_def)
  show ?case
  proof (cases "y \<le> q (c + b)")
    case True
    then show ?thesis using Cons.prems unfold by (intro exI [of _ 0]) simp
  next
    case False
    then have "q (c + b) < y" by simp
    from Cons.IH [OF cb(3) _ _ this, of "Suc i" "Some (q c)"] Cons.prems obtain j where
      j: "j < length bs" "q (c + b + sum_list (take j bs)) < y" "y \<le> q (c + b + sum_list (take (Suc j) bs))"
        "pct_loop F n y (Suc i) bs (of_int (c + b)) (Some (q c)) (Some (q (c + b))) =
         (Suc i + j, Some (q (c + b + sum_list (take j bs))), Some (q (c + b + sum_list (take (Suc j) bs))))"
      by (auto simp: add.assoc)
    then show ?thesis using unfold False by (intro exI [of _ "Suc j"]) (simp add: add.assoc)
  qed
qed simp

text \<open>Interpolation with rounding stays on the right side of the lower bound.\<close>

lemma interpolate_bounds:
  assumes "fpu_ok F" and "float_ok F" and "y0 \<le> y" and "y \<le> y1" and "rndf F x0 = x0"
  shows "if x0 \<le> x1 then x0 \<le> interpolate F x0 x1 y0 y1 y \<and> interpolate F x0 x1 y0 y1 y \<le> rndf F (x0 + rndf F (x1 - x0))
     else rndf F (x0 + rndf F (x1 - x0)) \<le> interpolate F x0 x1 y0 y1 y \<and> interpolate F x0 x1 y0 y1 y \<le> x0"
proof -
  note mono = fpu_okD(3) [OF assms(1)] and zero = fpu_okD(4) [OF assms(1)] and idem = fpu_okD(6) [OF assms(1)]
  let ?d = "rndf F (x1 - x0)" and ?t = "rndf F (rndf F (y - y0) / rndf F (y1 - y0))"
  have one: "rndf F 1 = 1" using assms(2) by (auto simp: float_ok_def dest: spec [of _ 1])
  have num: "0 \<le> rndf F (y - y0)" "rndf F (y - y0) \<le> rndf F (y1 - y0)"
    using mono [of 0 "y - y0"] mono [of "y - y0" "y1 - y0"] zero assms(3,4) by simp_all
  then have "0 \<le> rndf F (y - y0) / rndf F (y1 - y0)" "rndf F (y - y0) / rndf F (y1 - y0) \<le> 1"
    by (auto simp: divide_le_eq_1)
  then have t: "0 \<le> ?t" "?t \<le> 1" using mono zero one by metis+
  show ?thesis
  proof (cases "x0 \<le> x1")
    case True
    then have d: "0 \<le> ?d" using mono [of 0 "x1 - x0"] zero by simp
    then have "0 \<le> ?d * ?t" "?d * ?t \<le> ?d" using t by (auto simp: mult_left_le)
    then have "0 \<le> rndf F (?d * ?t)" "rndf F (?d * ?t) \<le> ?d" using mono zero idem by metis+
    then show ?thesis
      using True mono [of x0 "x0 + rndf F (?d * ?t)"] mono [of "x0 + rndf F (?d * ?t)" "x0 + ?d"] assms(5)
      by (simp add: interpolate_def)
  next
    case False
    then have d: "?d \<le> 0" using mono [of "x1 - x0" 0] zero by simp
    then have "?d * ?t \<le> 0" "?d \<le> ?d * ?t"
      using t mult_left_mono_neg [of ?t 1 ?d] by (simp_all add: mult_nonpos_nonneg)
    then have "rndf F (?d * ?t) \<le> 0" "?d \<le> rndf F (?d * ?t)" using mono zero idem by metis+
    then show ?thesis
      using False mono [of "x0 + rndf F (?d * ?t)" x0] mono [of "x0 + ?d" "x0 + rndf F (?d * ?t)"] assms(5)
      by (simp add: interpolate_def)
  qed
qed

section \<open>Properties\<close>

text \<open>C29. Recording values into a new histogram loses nothing, up to the largest number of values an
  \<open>int\<close> counts: the total is the number of values, and every bucket counts exactly the values whose
  logarithm puts them there, with the last bucket taking everything beyond. Only one value more
  than that makes the total overflow.\<close>

theorem p_hist_counts:
  assumes "fpu_ok F" and "log_ok F" and "0 < n"
  shows "if int (length vs) \<le> INT_MAX
     then \<exists>h. fold_res (\<lambda>v h. add_number_to_p_hist F h v) vs (new_p_hist n) = Inr h \<and> hist_inv h \<and>
       count_values h = int (length vs) \<and>
       (\<forall>i < nat n. buckets h ! i =
          int (length (filter (\<lambda>v. nat (min (bucket_index F v) (n - 1)) = i) vs)))
     else fold_res (\<lambda>v h. add_number_to_p_hist F h v) vs (new_p_hist n) = Inl Int_Overflow"
proof -
  note inv = new_p_hist_inv [OF assms(3)]
  have new: "count_values (new_p_hist n) = 0" by (simp add: new_p_hist_def)
  show ?thesis
    using add_numbers [OF assms(1,2) inv, of vs] add_numbers_overflow [OF assms(1,2) inv, of vs] new
    by (auto simp: new_p_hist_def clip_index_def)
qed

text \<open>C28. The percentile, in single precision arithmetic with any rounding IEEE allows, for up to
  \<open>2 ^ 24\<close> recorded values: it is a number, interpolated in the bucket where the rounded cumulative
  frequency first reaches the requested one, between the bucket's lower bound and its upper
  bound limited by the number of values. So with fewer values than the lower bound it does not
  lie in that bucket but at or below its lower bound.\<close>

theorem get_percentile_rounded:
  assumes "fpu_ok F" and "float_ok F" and "hist_inv h" and "0 < count_values h" and "count_values h \<le> 2 ^ 24"
    and "0 < y" and "y \<le> 1"
  shows "\<exists>i p. i < length (buckets h) \<and> cum_freq F h i < y \<and> y \<le> cum_freq F h (Suc i) \<and>
     get_percentile F h y = Some p \<and>
     p = interpolate F (bucket_low F i) (bucket_high F h i) (cum_freq F h i) (cum_freq F h (Suc i)) y \<and>
     (if bucket_low F i \<le> bucket_high F h i
      then bucket_low F i \<le> p \<and> p \<le> rndf F (bucket_low F i + rndf F (bucket_high F h i - bucket_low F i))
      else rndf F (bucket_low F i + rndf F (bucket_high F h i - bucket_low F i)) \<le> p \<and> p \<le> bucket_low F i)"
proof -
  let ?n = "count_values h"
  have inv: "sum_list (buckets h) = ?n" "list_all (\<lambda>b. 0 \<le> b) (buckets h)" using assms(3) by (simp_all add: hist_inv_def)
  have exact: "rndf F (of_int ?n) = of_int ?n" "rndf F 1 = 1"
    using assms(2,4,5) by (auto simp: float_ok_def dest: spec [of _ 1])
  obtain i where i: "i < length (buckets h)" "cum_freq F h i < y" "y \<le> cum_freq F h (Suc i)"
    "pct_loop F ?n y 0 (buckets h) 0 (Some 0) (Some 0) = (i, Some (cum_freq F h i), Some (cum_freq F h (Suc i)))"
    using pct_loop_finds [OF assms(2,4,5), of 0 "buckets h" y 0 "Some 0"] inv assms(4-7) exact fpu_okD(4) [OF assms(1)]
    by (auto simp: cum_freq_def)
  let ?p = "interpolate F (bucket_low F i) (bucket_high F h i) (cum_freq F h i) (cum_freq F h (Suc i)) y"
  have rounded: "rndf F (cum_freq F h k) = cum_freq F h k" for k by (simp add: cum_freq_def fpu_okD(6) [OF assms(1)])
  have "rndf F (cum_freq F h (Suc i) - cum_freq F h i) \<noteq> 0"
    using float_ok_diff [OF assms(2) rounded rounded, of "Suc i" i] i(2,3) by linarith
  then have "get_percentile F h y = Some ?p"
    using i(4) exact(1)
    by (cases "i = 0") (simp_all add: get_percentile_def fdiv_def bucket_low_def bucket_high_def interpolate_def min_def)
  moreover have "rndf F (bucket_low F i) = bucket_low F i"
    using assms(1) by (simp add: bucket_low_def fpu_okD(4,6))
  then have "if bucket_low F i \<le> bucket_high F h i
      then bucket_low F i \<le> ?p \<and> ?p \<le> rndf F (bucket_low F i + rndf F (bucket_high F h i - bucket_low F i))
      else rndf F (bucket_low F i + rndf F (bucket_high F h i - bucket_low F i)) \<le> ?p \<and> ?p \<le> bucket_low F i"
    using i(2,3) by (intro interpolate_bounds [OF assms(1,2)]) simp_all
  ultimately show ?thesis using i(1-3) by blast
qed

text \<open>The percentile of an empty histogram is not a number.\<close>

lemma get_percentile_empty:
  assumes "fpu_ok F" and "0 < n"
  shows "get_percentile F (new_p_hist n) y = None"
proof -
  have "pct_loop F 0 y i bs tmp y0 None = (i + length bs, if bs = [] then y0 else None, None)" for i bs tmp y0
    using assms(1) by (induction bs arbitrary: i tmp y0) (auto simp: fdiv_def fpu_okD)
  moreover obtain b bs where "replicate (nat n) (0 :: int) = b # bs"
    using assms(2) by (cases "nat n") auto
  ultimately show ?thesis
    using assms(1) by (simp add: get_percentile_def new_p_hist_def fdiv_def fpu_okD Let_def split: prod.splits)
qed

section \<open>Examples\<close>

theorem p_hist_counts_witness:
  "\<exists>h. fold_res (\<lambda>v h. add_number_to_p_hist exact_fpu h v) [0, 1, 0.5] (new_p_hist 3) = Inr h \<and>
     count_values h = 3 \<and> buckets h ! 0 = 3"
proof -
  have "bucket_index exact_fpu v = 0" if "v \<le> 1" for v
    using that by (simp add: bucket_index_def r2_def exact_fpu_def)
  then show ?thesis
    using p_hist_counts [OF exact_fpu_ok exact_log_ok, of 3 "[0, 1, 0.5]"] by auto
qed

text \<open>Four values between 31.9 and 45.3: the median comes out below 18.\<close>

theorem get_percentile_rounded_witness:
  "\<exists>p. get_percentile exact_fpu \<lparr>count_bucket = 11, count_values = 4, buckets = replicate 10 0 @ [4]\<rparr> 0.5 = Some p \<and>
     p < 18 \<and> 31 < bucket_low exact_fpu 10"
proof -
  let ?h = "\<lparr>count_bucket = 11, count_values = 4, buckets = replicate 10 0 @ [4]\<rparr>"
  have inv: "hist_inv ?h" by (simp add: hist_inv_def sum_list_replicate list_all_iff)
  obtain i p where i: "i < 11" "0.5 \<le> cum_freq exact_fpu ?h (Suc i)" "get_percentile exact_fpu ?h 0.5 = Some p"
    "p = interpolate exact_fpu (bucket_low exact_fpu i) (bucket_high exact_fpu ?h i)
       (cum_freq exact_fpu ?h i) (cum_freq exact_fpu ?h (Suc i)) 0.5"
    using get_percentile_rounded [OF exact_fpu_ok exact_float_ok inv, of "0.5"] by auto
  have zero: "cum_freq exact_fpu ?h k = 0" if "k \<le> 10" for k
    using that by (simp add: cum_freq_def sum_list_replicate exact_fpu_def)
  have "i = 10" using i(1,2) zero [of "Suc i"] by (cases "i < 10") auto
  moreover have "cum_freq exact_fpu ?h 11 = 1" by (simp add: cum_freq_def sum_list_replicate exact_fpu_def)
  ultimately have p: "p = bucket_low exact_fpu 10 + (bucket_high exact_fpu ?h 10 - bucket_low exact_fpu 10) / 2"
    using i(4) zero [of 10] by (simp add: interpolate_def exact_fpu_def)
  have "bucket_low exact_fpu 10 + (bucket_high exact_fpu ?h 10 - bucket_low exact_fpu 10) / 2 < 18"
    and "31 < bucket_low exact_fpu 10"
    by (simp_all add: bucket_low_def bucket_high_def r2_def exact_fpu_def powr_numeral power_divide min_def)
  with p i(3) show ?thesis by blast
qed

end
