(* ===== verification/Client.thy ===== *)
theory Client
  imports Config Packet Percentile
begin

text \<open>
  The load generator, \<open>do_client\<close> of \<open>client.c\<close>, and its receiver thread. The set-up (flow table,
  generators, destination MAC addresses), one round of the transmission loop (choice of the
  flow, rate limit, building a burst, sending it, the delay) and the loop itself are separate
  definitions, as are the handling of one received packet and one round of the receiver. The
  compile time flags are the record \<open>build_flags\<close>. What is printed at the end is \<open>client_report\<close>;
  other output is left out.

  The two threads share the device and the flag that stops the receiver. Each is modelled by
  itself: whatever the other thread does is part of what the device and the flag answer, which
  are arguments.
\<close>

section \<open>Model\<close>

abbreviation (input) "MAX_BURST_SIZE \<equiv> 512 :: nat"
abbreviation (input) "MAX_EXPECTED_LATENCY \<equiv> 10000 :: real"

record build_flags =
  bf_use_tcp :: bool
  bf_payload_number :: bool
  bf_rx_just_drop :: bool
  bf_rx_print_response :: bool

text \<open>What the transmission loop does not change.\<close>

record client_setup =
  cs_flow_q :: "u16 list"
  cs_server_eth :: "ether_addr list"
  cs_dst_zipf :: zipfgen
  cs_queue_zipf :: zipfgen
  cs_select_info :: "zipf_client_addr option"
  cs_num_gen :: "zipfgen option"

text \<open>What it does change.\<close>

record client_state =
  cl_can_send :: bool
  cl_start_time :: u64
  cl_duration :: u64
  cl_selected_dst :: int
  cl_flow :: int
  cl_dst_port :: u32
  cl_tp_start_ts :: u64
  cl_throughput :: "u64 list"
  cl_total_sent :: "u64 list"
  cl_failed_to_push :: "u64 list"
  cl_rng :: rng

subsection \<open>Set-up\<close>

definition get_tci :: "u16 \<Rightarrow> u16 \<Rightarrow> u16 \<Rightarrow> u16" where
  "get_tci prio dei vlan_id = push_bit 13 prio OR push_bit 12 dei OR vlan_id"

text \<open>\<open>count_dst_ip * count_flow\<close>, an unsigned product of 32 bits.\<close>

definition count_flows :: "cntx \<Rightarrow> u32" where
  "count_flows cx = word_of_int (cx_count_dst_ip cx) * cx_count_flow cx"

text \<open>The loop that assigns queues to flows. Its counter has 16 bits, so it may not end.\<close>

partial_function (option) flow_loop :: "u32 \<Rightarrow> u16 \<Rightarrow> u16 \<Rightarrow> u16 \<Rightarrow> u16 list \<Rightarrow> u16 list res option" where
  "flow_loop n qid count_queues i flow_q =
     (if ucast i < n
      then if count_queues = 0 then Some (Inl Div_By_Zero)
           else flow_loop n qid count_queues (i + 1) (flow_q[unat i := qid + i mod count_queues])
      else Some (Inr flow_q))"

text \<open>Destination addresses by ARP.\<close>

fun client_arp :: "dpdk \<Rightarrow> cntx \<Rightarrow> u32 list \<Rightarrow> trace \<Rightarrow> (ether_addr list \<times> trace) res option" where
  "client_arp d cx [] t = Some (Inr ([], t))"
| "client_arp d cx (ip # ips) t =
     (case get_dst_mac d (ucast (cx_dpdk_port_id cx)) (cx_src_ip cx) (cx_my_eth cx) ip broadcast_mac
             (cx_tx_mem_pool cx) 0 (ucast (cx_count_queues cx)) t of
        None \<Rightarrow> None
      | Some (Inl e) \<Rightarrow> Some (Inl e)
      | Some (Inr (dst_mac, t)) \<Rightarrow>
          (case client_arp d cx ips t of
             None \<Rightarrow> None
           | Some (Inl e) \<Rightarrow> Some (Inl e)
           | Some (Inr (macs, t)) \<Rightarrow> Some (Inr (dst_mac # macs, t))))"

text \<open>Destination addresses from the command line: for destination \<open>i\<close> six bytes are copied from
  \<open>&config.dest_mac[i]\<close>, which reads past the array for all but the first.\<close>

definition copy_mac :: "u8 list \<Rightarrow> nat \<Rightarrow> ether_addr list \<Rightarrow> ether_addr list res" where
  "copy_mac dest_mac i macs =
     (if length dest_mac < i + 6 then Inl (Out_Of_Bounds (i + 5))
      else Inr (macs @ [Ether_Addr (dest_mac ! i) (dest_mac ! (i + 1)) (dest_mac ! (i + 2))
                          (dest_mac ! (i + 3)) (dest_mac ! (i + 4)) (dest_mac ! (i + 5))]))"

definition client_macs :: "dpdk \<Rightarrow> app_config \<Rightarrow> cntx \<Rightarrow> trace \<Rightarrow> (ether_addr list \<times> trace) res option" where
  "client_macs d cfg cx t =
     (let n = nat (cx_count_dst_ip cx)
      in if cx_do_arp cx
         then if length (cx_dst_ips cx) < n then Some (Inl (Out_Of_Bounds (length (cx_dst_ips cx))))
              else client_arp d cx (take n (cx_dst_ips cx)) t
         else (case fold_res (copy_mac (cf_dest_mac cfg)) [0..<n] [] of
                 Inl e \<Rightarrow> Some (Inl e)
               | Inr macs \<Rightarrow> Some (Inr (macs, t))))"

definition client_duration :: "dpdk \<Rightarrow> cntx \<Rightarrow> u64" where
  "client_duration d cx =
     (if cx_duration cx < 0 then 0 else word_of_int (cx_duration cx) * rte_get_timer_hz d)"

text \<open>The tables of the random choices: destinations, queues, client addresses, payload numbers.\<close>

definition client_gens ::
  "fpu \<Rightarrow> build_flags \<Rightarrow> app_config \<Rightarrow> cntx \<Rightarrow> (zipfgen \<times> zipfgen \<times> zipf_client_addr option \<times> zipfgen option) res" where
  "client_gens F fl cfg cx =
     (case new_zipfgen F (cx_count_dst_ip cx) 2 of
        Inl e \<Rightarrow> Inl e
      | Inr dst_zipf \<Rightarrow>
          (case new_zipfgen F (int (unat (ucast (cx_count_queues cx) :: u16))) 2 of
             Inl e \<Rightarrow> Inl e
           | Inr queue_zipf \<Rightarrow>
               (case (if cf_select_src_ip cfg
                      then (case new_zipfgen F (sint (cf_unique_client_addresses cfg)) (cf_zipf_arg cfg) of
                              Inl e \<Rightarrow> Inl e
                            | Inr z \<Rightarrow> Inr (Some \<lparr>src_zipf = z, count_port = ucast (cf_unique_client_ports cfg)\<rparr>))
                      else Inr None) of
                  Inl e \<Rightarrow> Inl e
                | Inr select_info \<Rightarrow>
                    (case (if bf_payload_number fl then initialize_num_gen F None (cf_max_num cfg) 0 else Inr None) of
                       Inl e \<Rightarrow> Inl e
                     | Inr num_gen \<Rightarrow> Inr (dst_zipf, queue_zipf, select_info, num_gen)))))"

text \<open>\<open>do_client\<close> up to the transmission loop.\<close>

definition client_init ::
  "dpdk \<Rightarrow> fpu \<Rightarrow> build_flags \<Rightarrow> app_config \<Rightarrow> cntx \<Rightarrow> rng \<Rightarrow> trace \<Rightarrow>
     (client_setup \<times> client_state \<times> trace) res option" where
  "client_init d F fl cfg cx g t =
     (if cx_count_dst_ip cx < 1 then Some (Inl Assert_Failed)
      else if cx_dst_ips cx = [] then Some (Inl (Out_Of_Bounds 0))
      else if unat (cx_batch cx) > MAX_BURST_SIZE then Some (Inl (Rte_Exit EXIT_FAILURE ''something failed!''))
      else
        let n = unat (count_flows cx);
            count_queues = (ucast (cx_count_queues cx) :: u16)
        in case flow_loop (count_flows cx) (cx_default_qid cx) count_queues 0 (replicate n 0) of
             None \<Rightarrow> None
           | Some (Inl e) \<Rightarrow> Some (Inl e)
           | Some (Inr flow_q) \<Rightarrow>
               (case client_gens F fl cfg cx of
                  Inl e \<Rightarrow> Some (Inl e)
                | Inr (dst_zipf, queue_zipf, select_info, num_gen) \<Rightarrow>
                    (case client_macs d cfg cx t of
                       None \<Rightarrow> None
                     | Some (Inl e) \<Rightarrow> Some (Inl e)
                     | Some (Inr (macs, t)) \<Rightarrow>
                         let (start_time, t) = timer_cycles d t;
                             dsts = nat (cx_count_dst_ip cx)
                         in Some (Inr
                           (\<lparr>cs_flow_q = flow_q, cs_server_eth = macs, cs_dst_zipf = dst_zipf, cs_queue_zipf = queue_zipf,
                             cs_select_info = select_info, cs_num_gen = num_gen\<rparr>,
                            \<lparr>cl_can_send = True, cl_start_time = start_time, cl_duration = client_duration d cx,
                             cl_selected_dst = 0, cl_flow = 0, cl_dst_port = cx_base_port_number cx,
                             cl_tp_start_ts = start_time, cl_throughput = replicate n 0,
                             cl_total_sent = replicate dsts 0, cl_failed_to_push = replicate dsts 0, cl_rng = g\<rparr>,
                            t)))))"

subsection \<open>Choosing the flow\<close>

text \<open>The choice of a round: index and address of the destination, queue, and flow.\<close>

record choice =
  ch_k :: nat
  ch_dst_ip :: u32
  ch_server_eth :: ether_addr
  ch_selected_q :: u16
  ch_cur_flow :: int

definition select_queue :: "client_setup \<Rightarrow> cntx \<Rightarrow> client_state \<Rightarrow> (u16 \<times> rng) res" where
  "select_queue cs cx s =
     (case cx_queue_selection_distribution cx of
        DIST_ZIPF \<Rightarrow>
          (case number_from_zipf_distribution (cs_queue_zipf cs) (cl_rng s) of
             (Inl e, g) \<Rightarrow> Inl e
           | (Inr v, g) \<Rightarrow> Inr (word_of_int (v - 1), g))
      | DIST_UNIFORM \<Rightarrow>
          if cl_flow s < 0 \<or> int (length (cs_flow_q cs)) \<le> cl_flow s then Inl (Out_Of_Bounds (nat (cl_flow s)))
          else Inr (cs_flow_q cs ! nat (cl_flow s), cl_rng s))"

definition next_dst :: "client_setup \<Rightarrow> cntx \<Rightarrow> int \<Rightarrow> rng \<Rightarrow> (int \<times> rng) res" where
  "next_dst cs cx selected_dst g =
     (case cx_destination_distribution cx of
        DIST_ZIPF \<Rightarrow>
          (case number_from_zipf_distribution (cs_dst_zipf cs) g of
             (Inl e, g) \<Rightarrow> Inl e
           | (Inr v, g) \<Rightarrow> Inr (v - 1, g))
      | DIST_UNIFORM \<Rightarrow> Inr ((selected_dst + 1) mod cx_count_dst_ip cx, g))"

definition next_port :: "cntx \<Rightarrow> u32 \<Rightarrow> u32" where
  "next_port cx dst_port =
     (let dst_port = dst_port + 1
      in if dst_port \<ge> cx_base_port_number cx + cx_count_flow cx then cx_base_port_number cx else dst_port)"

definition client_select :: "client_setup \<Rightarrow> cntx \<Rightarrow> client_state \<Rightarrow> (choice \<times> client_state) res" where
  "client_select cs cx s =
     (let k = nat (cl_selected_dst s)
      in if cl_selected_dst s < 0 \<or> length (cx_dst_ips cx) \<le> k then Inl (Out_Of_Bounds k)
         else case select_queue cs cx s of
           Inl e \<Rightarrow> Inl e
         | Inr (selected_q, g) \<Rightarrow>
             if cl_selected_dst s \<noteq> 0 then Inl Assert_Failed
             else if length (cs_server_eth cs) \<le> k then Inl (Out_Of_Bounds k)
             else
               let dst_port = next_port cx (cl_dst_port s)
               in case next_dst cs cx (cl_selected_dst s) g of
                    Inl e \<Rightarrow> Inl e
                  | Inr (selected_dst, g) \<Rightarrow>
                      Inr (\<lparr>ch_k = k, ch_dst_ip = cx_dst_ips cx ! k, ch_server_eth = cs_server_eth cs ! k,
                            ch_selected_q = selected_q, ch_cur_flow = cl_flow s\<rparr>,
                           s\<lparr>cl_dst_port := dst_port, cl_selected_dst := selected_dst, cl_rng := g,
                             cl_flow := sint (word_of_int selected_dst * cx_count_flow cx +
                                              (dst_port - cx_base_port_number cx))\<rparr>))"

subsection \<open>The rate limit\<close>

text \<open>The counters are cleared once per second. The second result tells whether the round is
  skipped. \<open>rte_get_timer_hz\<close> is positive.\<close>

definition client_rate :: "dpdk \<Rightarrow> fpu \<Rightarrow> cntx \<Rightarrow> int \<Rightarrow> u64 \<Rightarrow> client_state \<Rightarrow> (client_state \<times> bool) res" where
  "client_rate d F cx cur_flow ts s =
     (let delta_time = rnd F (real (unat (ts - cl_tp_start_ts s)));
          hz = rnd F (real (unat (rte_get_timer_hz d)));
          s = (if delta_time > hz
               then s\<lparr>cl_throughput := replicate (length (cl_throughput s)) 0, cl_tp_start_ts := ts\<rparr> else s);
          limit_window = rnd F (rnd F (real (unat (cx_rate cx))) * rnd F (delta_time / hz))
      in if \<not> cx_rate_limit cx then Inr (s, False)
         else if cur_flow < 0 \<or> int (length (cl_throughput s)) \<le> cur_flow then Inl (Out_Of_Bounds (nat cur_flow))
         else Inr (s, rnd F (real (unat (cl_throughput s ! nat cur_flow))) > limit_window))"

subsection \<open>Building and sending a burst\<close>

definition client_pkt_info ::
  "app_config \<Rightarrow> cntx \<Rightarrow> client_setup \<Rightarrow> choice \<Rightarrow> client_state \<Rightarrow> prepare_packet_info" where
  "client_pkt_info cfg cx cs ch s =
     \<lparr>pi_use_vlan = cx_use_vlan cx,
      pi_client_address_selection = (if cf_select_src_ip cfg then ZIPF_CLIENT_ADDR else FIX_CLIENT_ADDR),
      pi_src_mac = cx_my_eth cx, pi_dst_mac = ch_server_eth ch, pi_src_ip = cx_src_ip cx,
      pi_dst_ip = ch_dst_ip ch, pi_src_port = cx_src_port cx, pi_dst_port = ucast (cl_dst_port s),
      pi_tci = get_tci 3 0 100, pi_payload_length = word_of_int (cx_payload_length cx),
      pi_client_addr_select_info = cs_select_info cs\<rparr>"

definition client_prepare ::
  "dpdk \<Rightarrow> build_flags \<Rightarrow> app_config \<Rightarrow> mbuf \<Rightarrow> prepare_packet_info \<Rightarrow> rng \<Rightarrow>
     (mbuf \<times> prepare_packet_info \<times> rng \<times> nat option) res" where
  "client_prepare d fl cfg buf info g =
     (if bf_use_tcp fl then prepare_tcp d buf info (cf_add_katran_opt cfg) g else prepare_udp d buf info g)"

definition client_payload ::
  "dpdk \<Rightarrow> build_flags \<Rightarrow> cntx \<Rightarrow> client_setup \<Rightarrow> nat option \<Rightarrow> mbuf \<Rightarrow> rng \<Rightarrow> trace \<Rightarrow> (mbuf \<times> rng \<times> trace) res" where
  "client_payload d fl cx cs payload buf g t =
     (let payload_length = (word_of_int (cx_payload_length cx) :: u64)
      in if bf_payload_number fl
         then (case payload_random_num (cs_num_gen cs) payload payload_length buf g of
                 Inl e \<Rightarrow> Inl e
               | Inr (buf, g) \<Rightarrow> Inr (buf, g, t))
         else (case payload_timestamp d payload payload_length buf t of
                 Inl e \<Rightarrow> Inl e
               | Inr (buf, t) \<Rightarrow> Inr (buf, g, t)))"

text \<open>One packet of the burst. The state holds the packets built so far, \<open>pkt_info\<close>, the
  generator and the trace. At the end the fields of \<open>pkt_info\<close> that may have changed are set
  back.\<close>

definition client_build ::
  "dpdk \<Rightarrow> build_flags \<Rightarrow> app_config \<Rightarrow> cntx \<Rightarrow> client_setup \<Rightarrow> prepare_packet_info \<Rightarrow> mbuf \<Rightarrow>
     (mbuf list \<times> prepare_packet_info \<times> rng) \<times> trace \<Rightarrow> ((mbuf list \<times> prepare_packet_info \<times> rng) \<times> trace) res" where
  "client_build d fl cfg cx cs info0 buf st =
     (let ((bufs, info, g), t) = st
      in case client_prepare d fl cfg buf info g of
           Inl e \<Rightarrow> Inl e
         | Inr (buf, info, g, payload) \<Rightarrow>
             (case client_payload d fl cx cs payload buf g t of
                Inl e \<Rightarrow> Inl e
              | Inr (buf, g, t) \<Rightarrow>
                  Inr ((bufs @ [buf],
                        info\<lparr>pi_src_port := pi_src_port info0, pi_src_ip := pi_src_ip info0,
                             pi_dst_port := pi_dst_port info0, pi_dst_ip := pi_dst_ip info0\<rparr>, g), t)))"

definition free_all :: "mbuf list \<Rightarrow> trace \<Rightarrow> trace" where
  "free_all bufs t = fold pktmbuf_free bufs t"

text \<open>Sending the burst, the counters, and freeing what was not sent.\<close>

definition client_send ::
  "dpdk \<Rightarrow> cntx \<Rightarrow> choice \<Rightarrow> u64 \<Rightarrow> mbuf list \<Rightarrow> client_state \<Rightarrow> trace \<Rightarrow> (client_state \<times> trace) res" where
  "client_send d cx ch end_time bufs s t =
     (let burst = unat (cx_batch cx);
          (nb_tx, t) = tx_burst d (ucast (cx_dpdk_port_id cx)) (ch_selected_q ch) bufs t;
          s = (if end_time > cl_start_time s
               then s\<lparr>cl_total_sent := (cl_total_sent s)[ch_k ch := cl_total_sent s ! ch_k ch + of_nat nb_tx],
                      cl_failed_to_push := (cl_failed_to_push s)
                        [ch_k ch := cl_failed_to_push s ! ch_k ch + of_nat (burst - nb_tx)]\<rparr>
               else s);
          t = (if nb_tx < burst then free_all (drop nb_tx bufs) t else t);
          i = ch_cur_flow ch
      in if i < 0 \<or> int (length (cl_throughput s)) \<le> i then Inl (Out_Of_Bounds (nat i))
         else Inr (s\<lparr>cl_throughput := (cl_throughput s)[nat i := cl_throughput s ! nat i + of_nat nb_tx]\<rparr>, t))"

text \<open>The delay: the quotient is converted to \<open>uint16_t\<close> by the call.\<close>

definition client_delay :: "dpdk \<Rightarrow> fpu \<Rightarrow> cntx \<Rightarrow> trace \<Rightarrow> trace option" where
  "client_delay d F cx t =
     (if cx_delay_cycles cx > 0
      then apply_delay_cycles d (cx_delay_cycles cx)
             (word_of_int (trunc (rnd F (real (unat (cx_batch cx)) / real (unat (cx_count_flow cx)))))) t
      else Some t)"

subsection \<open>The transmission loop\<close>

text \<open>A round in which packets may be sent.\<close>

definition client_round ::
  "dpdk \<Rightarrow> fpu \<Rightarrow> build_flags \<Rightarrow> app_config \<Rightarrow> cntx \<Rightarrow> client_setup \<Rightarrow> u64 \<Rightarrow> client_state \<Rightarrow> trace \<Rightarrow>
     (client_state \<times> trace) res option" where
  "client_round d F fl cfg cx cs end_time s t =
     (case client_select cs cx s of
        Inl e \<Rightarrow> Some (Inl e)
      | Inr (ch, s) \<Rightarrow>
          (case client_rate d F cx (ch_cur_flow ch) end_time s of
             Inl e \<Rightarrow> Some (Inl e)
           | Inr (s, limited) \<Rightarrow>
               if limited then Some (Inr (s, t))
               else (case pktmbuf_alloc_bulk d (cx_tx_mem_pool cx) (unat (cx_batch cx)) t of
                 (None, t) \<Rightarrow> Some (Inr (s, t))
               | (Some bufs, t) \<Rightarrow>
                   let info = client_pkt_info cfg cx cs ch s
                   in case fold_res (client_build d fl cfg cx cs info) bufs (([], info, cl_rng s), t) of
                        Inl e \<Rightarrow> Some (Inl e)
                      | Inr ((bufs, _, g), t) \<Rightarrow>
                          (case client_send d cx ch end_time bufs (s\<lparr>cl_rng := g\<rparr>) t of
                             Inl e \<Rightarrow> Some (Inl e)
                           | Inr (s, t) \<Rightarrow>
                               (case client_delay d F cx t of
                                  None \<Rightarrow> None
                                | Some t \<Rightarrow> Some (Inr (s, t)))))))"

text \<open>One iteration; \<open>False\<close> is the \<open>break\<close>.\<close>

definition client_iter ::
  "dpdk \<Rightarrow> fpu \<Rightarrow> build_flags \<Rightarrow> app_config \<Rightarrow> cntx \<Rightarrow> client_setup \<Rightarrow> client_state \<Rightarrow> trace \<Rightarrow>
     (bool \<times> client_state \<times> trace) res option" where
  "client_iter d F fl cfg cx cs s t =
     (let (end_time, t) = timer_cycles d t;
          over = (cl_duration s > 0 \<and> end_time > cl_start_time s + cl_duration s)
      in if over \<and> \<not> cl_can_send s then Some (Inr (False, s, t))
         else
           let (s, t) = (if over
                 then let (now, t) = timer_cycles d t
                      in (s\<lparr>cl_can_send := False, cl_start_time := now, cl_duration := 2 * rte_get_timer_hz d\<rparr>, t)
                 else (s, t))
           in if cl_can_send s
              then (case client_round d F fl cfg cx cs end_time s t of
                      None \<Rightarrow> None
                    | Some (Inl e) \<Rightarrow> Some (Inl e)
                    | Some (Inr (s, t)) \<Rightarrow> Some (Inr (True, s, t)))
              else Some (Inr (True, s, t)))"

definition client_loop ::
  "dpdk \<Rightarrow> fpu \<Rightarrow> build_flags \<Rightarrow> app_config \<Rightarrow> cntx \<Rightarrow> client_setup \<Rightarrow> (trace \<Rightarrow> bool) \<Rightarrow> client_state \<Rightarrow> trace \<Rightarrow>
     (client_state \<times> trace) res option" where
  "client_loop d F fl cfg cx cs running = worker_loop (client_iter d F fl cfg cx cs) running"

definition do_client ::
  "dpdk \<Rightarrow> fpu \<Rightarrow> build_flags \<Rightarrow> app_config \<Rightarrow> cntx \<Rightarrow> (trace \<Rightarrow> bool) \<Rightarrow> rng \<Rightarrow> trace \<Rightarrow>
     (cntx \<times> client_state \<times> trace) res option" where
  "do_client d F fl cfg cx running g t =
     (case client_init d F fl cfg cx g t of
        None \<Rightarrow> None
      | Some (Inl e) \<Rightarrow> Some (Inl e)
      | Some (Inr (cs, s, t)) \<Rightarrow>
          (case client_loop d F fl cfg cx cs running s t of
             None \<Rightarrow> None
           | Some (Inl e) \<Rightarrow> Some (Inl e)
           | Some (Inr (s, t)) \<Rightarrow> Some (Inr (cx\<lparr>cx_running := False\<rparr>, s, t))))"

subsection \<open>The receiver thread\<close>

record receiver_state =
  rv_hist :: "p_hist list"
  rv_received :: "u64 list"
  rv_pkts :: u64
  rv_last_report :: u64

text \<open>The index of the first destination with a given address.\<close>

definition find_dst :: "u32 list \<Rightarrow> u32 \<Rightarrow> nat option" where
  "find_dst dst_ips recv_ip =
     (let k = length (takeWhile (\<lambda>ip. ip \<noteq> recv_ip) dst_ips)
      in if k < length dst_ips then Some k else None)"

text \<open>Counting encapsulated packets.\<close>

definition receiver_report :: "dpdk \<Rightarrow> u64 \<Rightarrow> mem \<Rightarrow> nat \<Rightarrow> receiver_state \<Rightarrow> receiver_state" where
  "receiver_report d end_time f ip s =
     (if ld8 f (ip + IP_PROTO) = IPPROTO_IPIP
      then if end_time - rv_last_report s > 2 * rte_get_timer_hz d
           then s\<lparr>rv_last_report := end_time, rv_pkts := 0\<rparr> else s\<lparr>rv_pkts := rv_pkts s + 1\<rparr>
      else s)"

text \<open>The latency in microseconds and where it is recorded; only the first flow is recorded. When
  responses are printed the pointer has already been moved past the headers, and is moved again.\<close>

definition receiver_latency ::
  "dpdk \<Rightarrow> fpu \<Rightarrow> build_flags \<Rightarrow> cntx \<Rightarrow> mem \<Rightarrow> nat \<Rightarrow> nat \<Rightarrow> receiver_state \<Rightarrow> trace \<Rightarrow> (receiver_state \<times> trace) res" where
  "receiver_latency d F fl cx f ip k s t =
     (let ptr = (if bf_rx_print_response fl then ip + IPV4_HDR_LEN + UDP_HDR_LEN else ip);
          timestamp = ld64 f (ptr + IPV4_HDR_LEN + UDP_HDR_LEN);
          (now, t) = timer_cycles d t;
          src_port = rte_be_to_cpu_16 d (ld16 f (ip + IPV4_HDR_LEN + UDP_SRC));
          count = (\<lambda>s. s\<lparr>rv_received := (rv_received s)[k := rv_received s ! k + 1]\<rparr>)
      in if rte_get_timer_hz d = 0 then Inl Div_By_Zero
         else
           let latency = (now - timestamp) * 1000 * 1000 div rte_get_timer_hz d
           in if ucast src_port = cx_base_port_number cx
              then (case add_number_to_p_hist F (rv_hist s ! k) (rndf F (real (unat latency))) of
                      Inl e \<Rightarrow> Inl e
                    | Inr h \<Rightarrow> Inr (count (s\<lparr>rv_hist := (rv_hist s)[k := h]\<rparr>), t))
              else Inr (count s, t))"

definition receiver_packet ::
  "dpdk \<Rightarrow> fpu \<Rightarrow> build_flags \<Rightarrow> cntx \<Rightarrow> u64 \<Rightarrow> mbuf \<Rightarrow> receiver_state \<times> trace \<Rightarrow> (receiver_state \<times> trace) res" where
  "receiver_packet d F fl cx end_time buf st =
     (let (s, t) = st;
          f = pkt buf;
          ether_type = rte_be_to_cpu_16 d (ld16 f ETH_TYPE);
          ip = (if cx_use_vlan cx then ETHER_HDR_LEN + VLAN_HDR_LEN else ETHER_HDR_LEN)
      in if ether_type \<noteq> (if cx_use_vlan cx then RTE_ETHER_TYPE_VLAN else RTE_ETHER_TYPE_IPV4)
         then Inr (s, pktmbuf_free buf t)
         else
           let s = receiver_report d end_time f ip s
           in case find_dst (take (nat (cx_count_dst_ip cx)) (cx_dst_ips cx)) (rte_be_to_cpu_32 d (ld32 f (ip + IP_SRC))) of
                None \<Rightarrow> Inr (s, pktmbuf_free buf t)
              | Some k \<Rightarrow>
                  if bf_payload_number fl then Inr (s, pktmbuf_free buf t)
                  else (case receiver_latency d F fl cx f ip k s t of
                          Inl e \<Rightarrow> Inl e
                        | Inr (s, t) \<Rightarrow> Inr (s, pktmbuf_free buf t)))"

definition receiver_handle ::
  "dpdk \<Rightarrow> fpu \<Rightarrow> build_flags \<Rightarrow> cntx \<Rightarrow> u64 \<Rightarrow> mbuf \<Rightarrow> receiver_state \<times> trace \<Rightarrow> (receiver_state \<times> trace) res" where
  "receiver_handle d F fl cx end_time buf st =
     (let (s, t) = st
      in if bf_rx_just_drop fl then Inr (s, pktmbuf_free buf t)
         else (case check_eth_hdr d (cx_src_ip cx) (cx_my_eth cx) buf (cx_tx_mem_pool cx) 0 t of
                 Inl e \<Rightarrow> Inl e
               | Inr (valid_pkt, t) \<Rightarrow>
                   if \<not> valid_pkt then Inr (s, pktmbuf_free buf t)
                   else receiver_packet d F fl cx end_time buf (s, t)))"

text \<open>The queues are polled in order until one has packets.\<close>

fun receiver_poll :: "dpdk \<Rightarrow> u16 \<Rightarrow> u16 list \<Rightarrow> trace \<Rightarrow> mbuf list \<times> trace" where
  "receiver_poll d port [] t = ([], t)"
| "receiver_poll d port (q # qs) t =
     (let (bufs, t) = rx_burst d port q MAX_BURST_SIZE t
      in if bufs \<noteq> [] then (bufs, t) else receiver_poll d port qs t)"

definition receiver_queues :: "cntx \<Rightarrow> u16 list" where
  "receiver_queues cx =
     map (\<lambda>i. of_nat (unat (cx_default_qid cx) + i)) [0..<unat (cx_count_queues cx)]"

definition receiver_iter ::
  "dpdk \<Rightarrow> fpu \<Rightarrow> build_flags \<Rightarrow> cntx \<Rightarrow> receiver_state \<Rightarrow> trace \<Rightarrow> (bool \<times> receiver_state \<times> trace) res option" where
  "receiver_iter d F fl cx s t =
     (let (end_time, t) = timer_cycles d t;
          (recv_bufs, t) = receiver_poll d (ucast (cx_dpdk_port_id cx)) (receiver_queues cx) t
      in case fold_res (receiver_handle d F fl cx end_time) recv_bufs (s, t) of
           Inl e \<Rightarrow> Some (Inl e)
         | Inr (s, t) \<Rightarrow> Some (Inr (True, s, t)))"

definition receiver_loop ::
  "dpdk \<Rightarrow> fpu \<Rightarrow> build_flags \<Rightarrow> cntx \<Rightarrow> (trace \<Rightarrow> bool) \<Rightarrow> receiver_state \<Rightarrow> trace \<Rightarrow>
     (receiver_state \<times> trace) res option" where
  "receiver_loop d F fl cx running = worker_loop (receiver_iter d F fl cx) running"

text \<open>The thread starts with one histogram per destination.\<close>

definition run_receiver_thread ::
  "dpdk \<Rightarrow> fpu \<Rightarrow> build_flags \<Rightarrow> cntx \<Rightarrow> (trace \<Rightarrow> bool) \<Rightarrow> trace \<Rightarrow> (receiver_state \<times> trace) res option" where
  "run_receiver_thread d F fl cx running t =
     receiver_loop d F fl cx running
       \<lparr>rv_hist = replicate (nat (cx_count_dst_ip cx)) (new_p_hist_from_max_value F MAX_EXPECTED_LATENCY),
        rv_received = replicate (nat (cx_count_dst_ip cx)) 0, rv_pkts = 0, rv_last_report = 0\<rparr> t"

subsection \<open>The report\<close>

text \<open>What is printed at the end for each destination: the bytes of its address, the percentiles of the
  latency (\<open>None\<close> is not a number), and the counters.\<close>

record dst_report =
  rp_ip :: "u8 list"
  rp_latency :: "real option list"
  rp_tx :: u64
  rp_rx :: u64
  rp_failed :: u64

definition report_percentiles :: "fpu \<Rightarrow> real list" where
  "report_percentiles F = map (rndf F) [0.01, 0.50, 0.90, 0.95, 0.99, 0.999, 0.9999]"

definition client_report :: "dpdk \<Rightarrow> fpu \<Rightarrow> cntx \<Rightarrow> client_state \<Rightarrow> receiver_state \<Rightarrow> dst_report list" where
  "client_report d F cx s r =
     map (\<lambda>k. let ip = rte_be_to_cpu_32 d (cx_dst_ips cx ! k)
               in \<lparr>rp_ip = [addr_byte ip 0, addr_byte ip 1, addr_byte ip 2, addr_byte ip 3],
                   rp_latency = (if cx_bidi cx then map (get_percentile F (rv_hist r ! k)) (report_percentiles F) else []),
                   rp_tx = cl_total_sent s ! k, rp_rx = rv_received r ! k, rp_failed = cl_failed_to_push s ! k\<rparr>)
       [0..<nat (cx_count_dst_ip cx)]"

section \<open>Specification\<close>

text \<open>The queue of flow \<open>j\<close>.\<close>

definition queue_of_flow :: "u16 \<Rightarrow> u16 \<Rightarrow> nat \<Rightarrow> u16" where
  "queue_of_flow qid count_queues j = qid + of_nat j mod count_queues"

text \<open>With one destination and uniform choice: the flow is the offset of the port, and all tables
  have an entry for it.\<close>

definition single_dst :: "cntx \<Rightarrow> client_setup \<Rightarrow> bool" where
  "single_dst cx cs \<longleftrightarrow> cx_count_dst_ip cx = 1 \<and> cx_dst_ips cx \<noteq> [] \<and> cs_server_eth cs \<noteq> [] \<and>
     cx_queue_selection_distribution cx = DIST_UNIFORM \<and> cx_destination_distribution cx = DIST_UNIFORM \<and>
     0 < cx_count_flow cx \<and> unat (cx_count_flow cx) < 2 ^ 31 \<and>
     unat (cx_base_port_number cx) + unat (cx_count_flow cx) < 2 ^ 32 \<and>
     length (cs_flow_q cs) = unat (cx_count_flow cx)"

definition client_inv :: "cntx \<Rightarrow> client_state \<Rightarrow> bool" where
  "client_inv cx s \<longleftrightarrow> cl_selected_dst s = 0 \<and> 0 \<le> cl_flow s \<and> cl_flow s < int (unat (cx_count_flow cx)) \<and>
     cx_base_port_number cx \<le> cl_dst_port s \<and>
     unat (cl_dst_port s) < unat (cx_base_port_number cx) + unat (cx_count_flow cx) \<and>
     length (cl_throughput s) = unat (cx_count_flow cx)"

text \<open>The end of a phase, a round of sending that begins before the phase of \<open>s0\<close> ends, and reading
  the clock \<open>k\<close> times.\<close>

definition client_over :: "client_state \<Rightarrow> u64 \<Rightarrow> bool" where
  "client_over s now \<longleftrightarrow> cl_duration s > 0 \<and> now > cl_start_time s + cl_duration s"

inductive client_sending ::
  "dpdk \<Rightarrow> fpu \<Rightarrow> build_flags \<Rightarrow> app_config \<Rightarrow> cntx \<Rightarrow> client_setup \<Rightarrow> client_state \<Rightarrow>
     client_state \<times> trace \<Rightarrow> client_state \<times> trace \<Rightarrow> bool"
  for d F fl cfg cx cs s0 where
  "now = rte_get_timer_cycles d t \<Longrightarrow> \<not> client_over s0 now \<Longrightarrow>
     client_round d F fl cfg cx cs now s (Timer_Read now # t) = Some (Inr (s', t')) \<Longrightarrow>
     client_sending d F fl cfg cx cs s0 (s, t) (s', t')"

fun clock_reads :: "dpdk \<Rightarrow> nat \<Rightarrow> trace \<Rightarrow> trace" where
  "clock_reads d 0 t = t"
| "clock_reads d (Suc k) t = clock_reads d k (Timer_Read (rte_get_timer_cycles d t) # t)"

text \<open>The end of a run whose sending phase is that of \<open>s0\<close>: the clock is past the phase, the waiting phase of
  two seconds begins with a second reading, and the clock is read again and again until the
  first reading past that phase.\<close>

definition client_drained :: "dpdk \<Rightarrow> client_state \<Rightarrow> client_state \<Rightarrow> trace \<Rightarrow> client_state \<Rightarrow> trace \<Rightarrow> bool" where
  "client_drained d s0 s1 t1 s' t' \<longleftrightarrow>
     (let now = rte_get_timer_cycles d t1;
          stop = rte_get_timer_cycles d (Timer_Read now # t1);
          t2 = Timer_Read stop # Timer_Read now # t1
      in client_over s0 now \<and>
         s' = s1\<lparr>cl_can_send := False, cl_start_time := stop, cl_duration := 2 * rte_get_timer_hz d\<rparr> \<and>
         (\<exists>k. (\<forall>j < k. \<not> client_over s' (rte_get_timer_cycles d (clock_reads d j t2))) \<and>
              client_over s' (rte_get_timer_cycles d (clock_reads d k t2)) \<and> t' = clock_reads d (Suc k) t2))"

text \<open>Values for the examples.\<close>

definition client_cx :: cntx where
  "client_cx = \<lparr>cx_mode = mode_client, cx_rx_mem_pool = 0, cx_tx_mem_pool = 1, cx_worker_id = 0,
     cx_dpdk_port_id = 0, cx_default_qid = 0, cx_my_eth = Ether_Addr 2 0 0 0 0 1, cx_src_ip = 0xC0A80101,
     cx_src_port = 3000, cx_count_queues = 1, cx_use_vlan = False, cx_bidi = True, cx_do_arp = False,
     cx_delay_us = 0, cx_delay_cycles = 0, cx_managed_queues = [0], cx_duration = 1, cx_dst_ips = [0xC0A80102],
     cx_count_dst_ip = 1, cx_dst_port = 8080, cx_payload_length = 64, cx_running = True, cx_count_flow = 2,
     cx_base_port_number = 8080, cx_destination_distribution = DIST_UNIFORM,
     cx_queue_selection_distribution = DIST_UNIFORM, cx_rate_limit = False, cx_rate = 0, cx_batch = 1\<rparr>"

definition two_dst_cx :: cntx where
  "two_dst_cx = client_cx\<lparr>cx_count_dst_ip := 2, cx_dst_ips := [0xC0A80102, 0xC0A80103]\<rparr>"

definition udp_flags :: build_flags where
  "udp_flags = \<lparr>bf_use_tcp = False, bf_payload_number = False, bf_rx_just_drop = False,
     bf_rx_print_response = False\<rparr>"

definition client_sim :: dpdk where
  "client_sim = sim (\<lambda>t. of_nat (length t)) (\<lambda>_ _. []) (\<lambda>_. 1) (Ether_Addr 2 0 0 0 0 1)"

definition late_sim :: dpdk where
  "late_sim = sim (\<lambda>t. (if length t < 4 then 1 else 1500) * of_nat (length t)) (\<lambda>_ _. []) (\<lambda>_. 1) (Ether_Addr 2 0 0 0 0 1)"

definition client_cs :: client_setup where
  "client_cs = \<lparr>cs_flow_q = [0, 0], cs_server_eth = [Ether_Addr 2 0 0 0 0 2], cs_dst_zipf = single_gen 2,
     cs_queue_zipf = single_gen 2, cs_select_info = None, cs_num_gen = None\<rparr>"

definition client_start :: client_state where
  "client_start = \<lparr>cl_can_send = True, cl_start_time = 0, cl_duration = 1000, cl_selected_dst = 0, cl_flow = 0,
     cl_dst_port = 8080, cl_tp_start_ts = 0, cl_throughput = [0, 0], cl_total_sent = [0], cl_failed_to_push = [0],
     cl_rng = rng_init\<rparr>"

section \<open>The flow table\<close>

lemma ucast_less_u32: "(ucast (i :: u16) :: u32) < n \<longleftrightarrow> unat i < unat n"
proof -
  have "unat i < 2 ^ 32" using unat_bound(2) [of i] by (rule order.strict_trans) simp
  then have "unat (ucast i :: u32) = unat i" by (simp add: unsigned_ucast_eq take_bit_nat_eq_self)
  then show ?thesis by (simp add: word_less_nat_alt)
qed

lemma unat_Suc_u16: "unat (i :: u16) < 65535 \<Longrightarrow> unat (i + 1) = Suc (unat i)"
  by unat_arith simp

lemma flow_loop_fills:
  assumes "cq \<noteq> 0" and "unat n < 65536"
  shows "unat i \<le> unat n \<Longrightarrow> length xs = unat n \<Longrightarrow>
     flow_loop n qid cq i xs = Some (Inr (take (unat i) xs @ map (queue_of_flow qid cq) [unat i..<unat n]))"
proof (induction "unat n - unat i" arbitrary: i xs)
  case 0
  then show ?case by (subst flow_loop.simps) (simp add: ucast_less_u32)
next
  case (Suc k)
  then have less: "unat i < unat n" by simp
  with assms(2) have suc: "unat (i + 1) = Suc (unat i)" by (intro unat_Suc_u16) simp
  let ?xs = "xs[unat i := qid + i mod cq]"
  have "flow_loop n qid cq i xs = flow_loop n qid cq (i + 1) ?xs"
    using less assms(1) by (subst flow_loop.simps) (simp add: ucast_less_u32)
  also have "\<dots> = Some (Inr (take (unat (i + 1)) ?xs @ map (queue_of_flow qid cq) [unat (i + 1)..<unat n]))"
    using Suc less suc by (intro Suc.hyps(1)) auto
  also have "\<dots> = Some (Inr (take (unat i) xs @ map (queue_of_flow qid cq) [unat i..<unat n]))"
    using less suc Suc.prems(2) by (simp add: take_Suc_conv_app_nth upt_conv_Cons queue_of_flow_def)
  finally show ?case .
qed

lemma flow_loop_diverges:
  assumes "cq \<noteq> 0" and "65536 \<le> unat n"
  shows "flow_loop n qid cq i xs = None"
proof (rule ccontr)
  assume "flow_loop n qid cq i xs \<noteq> None"
  then obtain y where y: "flow_loop n qid cq i xs = Some y" by blast
  have "cq \<noteq> 0 \<longrightarrow> 65536 \<le> unat n \<longrightarrow> False"
  proof (rule flow_loop.raw_induct [OF _ y, where P = "\<lambda>n qid cq i xs y. cq \<noteq> 0 \<longrightarrow> 65536 \<le> unat n \<longrightarrow> False"], intro impI)
    fix f and n :: u32 and qid cq i :: u16 and xs y
    assume IH: "\<And>n qid cq i xs y. f n qid cq i xs = Some y \<Longrightarrow> cq \<noteq> 0 \<longrightarrow> 65536 \<le> unat n \<longrightarrow> False"
      and eq: "(if ucast i < n then if cq = 0 then Some (Inl Div_By_Zero)
          else f n qid cq (i + 1) (xs[unat i := qid + i mod cq]) else Some (Inr xs)) = Some y"
      and cq: "cq \<noteq> 0" and n: "65536 \<le> unat n"
    have "ucast i < n" unfolding ucast_less_u32 using n unat_bound(2) [of i] by linarith
    with eq cq have "f n qid cq (i + 1) (xs[unat i := qid + i mod cq]) = Some y" by simp
    from IH [OF this] cq n show False by blast
  qed
  with assms show False by blast
qed

section \<open>Choosing the flow\<close>

lemma next_port_eq:
  assumes "unat (cx_base_port_number cx) + unat (cx_count_flow cx) < 2 ^ 32"
    and "cx_base_port_number cx \<le> p" and "unat p < unat (cx_base_port_number cx) + unat (cx_count_flow cx)"
  shows "unat (next_port cx p) =
     (if Suc (unat p) < unat (cx_base_port_number cx) + unat (cx_count_flow cx)
      then Suc (unat p) else unat (cx_base_port_number cx))"
proof -
  have sum: "unat (cx_base_port_number cx + cx_count_flow cx) = unat (cx_base_port_number cx) + unat (cx_count_flow cx)"
    using assms(1) by (simp add: unat_word_ariths)
  have "Suc (unat p) < 2 ^ 32" using assms(1,3) by linarith
  then have "unat (p + 1) = Suc (unat p)" by unat_arith simp
  then show ?thesis using sum by (simp add: next_port_def Let_def word_le_nat_alt)
qed

lemma client_select_ok:
  assumes "single_dst cx cs" and "client_inv cx s"
  shows "\<exists>ch s'. client_select cs cx s = Inr (ch, s') \<and> client_inv cx s' \<and> cl_dst_port s' = next_port cx (cl_dst_port s) \<and>
     ch_cur_flow ch = cl_flow s \<and> ch_k ch = 0 \<and> ch_selected_q ch = cs_flow_q cs ! nat (cl_flow s) \<and>
     cl_flow s' = int (unat (next_port cx (cl_dst_port s))) - int (unat (cx_base_port_number cx))"
proof -
  let ?p = "next_port cx (cl_dst_port s)" and ?b = "cx_base_port_number cx"
  have b: "unat ?b + unat (cx_count_flow cx) < 2 ^ 32" and c: "0 < unat (cx_count_flow cx)"
    "unat (cx_count_flow cx) < 2 ^ 31"
    using assms(1) by (auto simp: single_dst_def word_gt_0 unat_gt_0)
  have port: "?b \<le> cl_dst_port s" "unat (cl_dst_port s) < unat ?b + unat (cx_count_flow cx)"
    using assms(2) by (auto simp: client_inv_def)
  have p: "unat ?b \<le> unat ?p" "unat ?p < unat ?b + unat (cx_count_flow cx)"
    using next_port_eq [OF b port] port c by (auto simp: word_le_nat_alt)
  then have diff: "unat (?p - ?b) = unat ?p - unat ?b" by (simp add: unat_sub word_le_nat_alt)
  with p c have "unat (?p - ?b) < 2 ^ 31" by linarith
  then have "sint (?p - ?b) = int (unat (?p - ?b))" by (rule sint_small_u32)
  then have "sint (?p - ?b) = int (unat ?p) - int (unat ?b)" using diff p(1) by linarith
  then show ?thesis
    using assms p
    by (auto simp: client_select_def select_queue_def next_dst_def Let_def single_dst_def client_inv_def
        word_le_nat_alt simp del: of_nat_unat)
qed

section \<open>The report\<close>

lemma addr_byte_bswap32:
  "addr_byte (bswap32 x) 0 = addr_byte x 3" "addr_byte (bswap32 x) 1 = addr_byte x 2"
  "addr_byte (bswap32 x) 2 = addr_byte x 1" "addr_byte (bswap32 x) 3 = addr_byte x 0"
  by (rule bit_word_eqI, auto simp: addr_byte_def bswap32_def bswap16_def word_size bit_word_cat_iff bit_simps)+

text \<open>The addresses in the report read as \<open>ip_to_str\<close> prints them.\<close>

lemma client_report_ip:
  assumes "rte_be_to_cpu_32 d = bswap32" and "k < nat (cx_count_dst_ip cx)"
  shows "ip_to_str (cx_dst_ips cx ! k) 20 =
     take 19 (concat (map (\<lambda>i. (if i = 0 then [] else ''.'') @ dec_string (unat (rp_ip (client_report d F cx s r ! k) ! i))) [0, 1, 2, 3]))"
  using assms by (simp add: client_report_def ip_to_str_def addr_byte_bswap32 [simplified])

section \<open>Accounting\<close>

lemma prepare_udp_addr:
  assumes "append_ok d" and "prepare_udp d buf info g = Inr (b, info', g', p)"
  shows "buf_addr b = buf_addr buf"
  using assms append_ok_def [of d]
  by (auto simp: prepare_udp_def prepare_eth_vlan_ip_def Let_def split: sum.splits prod.splits if_splits)

lemma prepare_tcp_addr:
  assumes "append_ok d" and "prepare_tcp d buf info k g = Inr (b, info', g', p)"
  shows "buf_addr b = buf_addr buf"
  using assms append_ok_def [of d]
  by (auto simp: prepare_tcp_def prepare_eth_vlan_ip_def Let_def split: sum.splits prod.splits if_splits)

lemma payload_constant_num_addr:
  "payload_constant_num p len v buf = Inr b \<Longrightarrow> buf_addr b = buf_addr buf"
  by (auto simp: payload_constant_num_def Let_def split: option.splits if_splits)

lemma client_prepare_addr:
  "append_ok d \<Longrightarrow> client_prepare d fl cfg buf info g = Inr (b, info', g', p) \<Longrightarrow> buf_addr b = buf_addr buf"
  using prepare_udp_addr prepare_tcp_addr by (auto simp: client_prepare_def split: if_splits)

lemma client_payload_addr:
  assumes "client_payload d fl cx cs p buf g t = Inr (b, g', t')"
  shows "buf_addr b = buf_addr buf \<and> outstanding t' a = outstanding t a"
  using assms
  by (auto simp: client_payload_def payload_random_num_def payload_timestamp_def trace_simps
      dest!: payload_constant_num_addr split: if_splits option.splits sum.splits prod.splits)

lemma client_build_adds:
  assumes "append_ok d" and "client_build d fl cfg cx cs info0 m ((bufs, info, g), t) = Inr ((bufs', info', g'), t')"
  shows "\<exists>b. bufs' = bufs @ [b] \<and> buf_addr b = buf_addr m" and "outstanding t' a = outstanding t a"
proof -
  obtain b1 info1 g1 p where prep: "client_prepare d fl cfg m info g = Inr (b1, info1, g1, p)"
    using assms(2) by (auto simp: client_build_def split: sum.splits)
  obtain b2 where pay: "client_payload d fl cx cs p b1 g1 t = Inr (b2, g', t')" and bufs: "bufs' = bufs @ [b2]"
    using assms(2) prep by (auto simp: client_build_def split: sum.splits)
  show "\<exists>b. bufs' = bufs @ [b] \<and> buf_addr b = buf_addr m" "outstanding t' a = outstanding t a"
    using bufs client_prepare_addr [OF assms(1) prep] client_payload_addr [OF pay, of a] by auto
qed

lemma client_build_handler:
  "append_ok d \<Longrightarrow> rx_handler (client_build d fl cfg cx cs info0) (\<lambda>(bufs, _, _). bufs)"
proof unfold_locales
  fix m s t s' t' a
  assume ok: "append_ok d" and step: "client_build d fl cfg cx cs info0 m (s, t) = Inr (s', t')"
  show "outstanding t' a - held (case s' of (bufs, _, _) \<Rightarrow> bufs) a =
      outstanding t a - held (case s of (bufs, _, _) \<Rightarrow> bufs) a - held [m] a"
    using client_build_adds [OF ok, of fl cfg cx cs info0 m "fst s" "fst (snd s)" "snd (snd s)" t
        "fst s'" "fst (snd s')" "snd (snd s')" t'] step
    by (auto simp: case_prod_beta)
qed

lemma client_build_length:
  assumes "append_ok d" and "fold_res (client_build d fl cfg cx cs info0) ms ((bufs, info, g), t) = Inr ((bufs', info', g'), t')"
  shows "length bufs' = length bufs + length ms"
  using assms(2)
proof (induction ms arbitrary: bufs info g t)
  case (Cons m ms)
  then obtain bufs1 info1 g1 t1 where step: "client_build d fl cfg cx cs info0 m ((bufs, info, g), t) = Inr ((bufs1, info1, g1), t1)"
    and rest: "fold_res (client_build d fl cfg cx cs info0) ms ((bufs1, info1, g1), t1) = Inr ((bufs', info', g'), t')"
    by (fastforce split: sum.splits)
  show ?case using Cons.IH [OF rest] client_build_adds(1) [OF assms(1) step] by auto
qed simp

lemma free_all_balance: "outstanding (free_all ms t) a = outstanding t a - held ms a"
  by (induction ms arbitrary: t) (simp_all add: free_all_def trace_simps)

lemma client_send_balance:
  assumes "tx_ok d" and "length bufs = unat (cx_batch cx)" and "client_send d cx ch now bufs s t = Inr (s', t')"
  shows "outstanding t' a = outstanding t a - held bufs a"
proof -
  let ?n = "rte_eth_tx_burst d t (ucast (cx_dpdk_port_id cx)) (ch_selected_q ch) bufs"
  have "?n < unat (cx_batch cx) \<or> drop ?n bufs = []" using assms(2) by auto
  then have "outstanding t' a = outstanding t a - held (take ?n bufs) a - held (drop ?n bufs) a"
    using assms(3) by (auto simp: client_send_def trace_simps free_all_balance split: if_splits)
  then show ?thesis using held_take_drop [of ?n bufs a] by simp
qed

lemma client_round_balance:
  assumes "append_ok d" and "tx_ok d" and "alloc_ok d"
    and "client_round d F fl cfg cx cs now s t = Some (Inr (s', t'))"
  shows "outstanding t' a = outstanding t a"
proof -
  obtain ch s1 where sel: "client_select cs cx s = Inr (ch, s1)"
    using assms(4) by (auto simp: client_round_def split: sum.splits)
  obtain s2 lim where rate: "client_rate d F cx (ch_cur_flow ch) now s1 = Inr (s2, lim)"
    using assms(4) sel by (auto simp: client_round_def split: sum.splits)
  show ?thesis
  proof (cases "lim \<or> rte_pktmbuf_alloc_bulk d t (cx_tx_mem_pool cx) (unat (cx_batch cx)) = None")
    case True
    then show ?thesis using assms(4) sel rate by (auto simp: client_round_def trace_simps split: if_splits)
  next
    case False
    then obtain ms where alloc: "rte_pktmbuf_alloc_bulk d t (cx_tx_mem_pool cx) (unat (cx_batch cx)) = Some ms"
      and lim: "\<not> lim" by auto
    let ?info = "client_pkt_info cfg cx cs ch s2"
    obtain bufs i g t1 where build: "fold_res (client_build d fl cfg cx cs ?info) ms (([], ?info, cl_rng s2), Mbuf_Alloc ms # t) =
        Inr ((bufs, i, g), t1)"
      using assms(4) sel rate lim alloc by (auto simp: client_round_def trace_simps split: sum.splits)
    obtain s3 t2 where send: "client_send d cx ch now bufs (s2\<lparr>cl_rng := g\<rparr>) t1 = Inr (s3, t2)"
      and delay: "client_delay d F cx t2 = Some t'"
      using assms(4) sel rate lim alloc build
      by (auto simp: client_round_def trace_simps split: sum.splits option.splits)
    have len: "length bufs = unat (cx_batch cx)"
      using client_build_length [OF assms(1) build] alloc assms(3) by (auto simp: alloc_ok_def)
    have "outstanding t1 a - held bufs a = outstanding t a"
      using rx_handler.burst_balance [OF client_build_handler [OF assms(1)] build, of a] by simp
    moreover have "outstanding t' a = outstanding t2 a"
      using delay apply_delay_cycles_balance by (auto simp: client_delay_def split: if_splits)
    ultimately show ?thesis using client_send_balance [OF assms(2) len send, of a] by simp
  qed
qed

lemma client_iter_balance:
  assumes "append_ok d" and "tx_ok d" and "alloc_ok d"
    and "client_iter d F fl cfg cx cs s t = Some (Inr (go_on, s', t'))"
  shows "outstanding t' a = outstanding t a"
  using assms(4) client_round_balance [OF assms(1-3), where a = a]
  by (fastforce simp: client_iter_def trace_simps split: if_splits option.splits sum.splits prod.splits)

section \<open>The phases of a run\<close>

lemma client_iter_over:
  assumes "now = rte_get_timer_cycles d t" and "client_over s now"
  shows "client_iter d F fl cfg cx cs s t =
     (if cl_can_send s
      then let stop = rte_get_timer_cycles d (Timer_Read now # t)
           in Some (Inr (True, s\<lparr>cl_can_send := False, cl_start_time := stop, cl_duration := 2 * rte_get_timer_hz d\<rparr>,
                Timer_Read stop # Timer_Read now # t))
      else Some (Inr (False, s, Timer_Read now # t)))"
  using assms by (auto simp: client_iter_def client_over_def trace_simps)

lemma client_iter_waiting:
  assumes "now = rte_get_timer_cycles d t" and "\<not> client_over s now"
  shows "client_iter d F fl cfg cx cs s t =
     (if cl_can_send s
      then (case client_round d F fl cfg cx cs now s (Timer_Read now # t) of
              None \<Rightarrow> None
            | Some (Inl e) \<Rightarrow> Some (Inl e)
            | Some (Inr (s', t')) \<Rightarrow> Some (Inr (True, s', t')))
      else Some (Inr (True, s, Timer_Read now # t)))"
  using assms by (auto simp: client_iter_def client_over_def trace_simps)

lemma client_round_keeps:
  assumes "client_round d F fl cfg cx cs now s t = Some (Inr (s', t'))"
  shows "cl_can_send s' = cl_can_send s" and "cl_start_time s' = cl_start_time s" and "cl_duration s' = cl_duration s"
proof -
  have select: "cl_can_send s2 = cl_can_send s1 \<and> cl_start_time s2 = cl_start_time s1 \<and> cl_duration s2 = cl_duration s1"
    if "client_select cs cx s1 = Inr (ch, s2)" for s1 ch s2
    using that by (auto simp: client_select_def Let_def split: if_splits sum.splits)
  have rate: "cl_can_send s2 = cl_can_send s1 \<and> cl_start_time s2 = cl_start_time s1 \<and> cl_duration s2 = cl_duration s1"
    if "client_rate d F cx i now s1 = Inr (s2, lim)" for s1 i s2 lim
    using that by (auto simp: client_rate_def Let_def split: if_splits)
  have send: "cl_can_send s2 = cl_can_send s1 \<and> cl_start_time s2 = cl_start_time s1 \<and> cl_duration s2 = cl_duration s1"
    if "client_send d cx ch now bufs s1 t1 = Inr (s2, t2)" for ch bufs s1 t1 s2 t2
    using that by (auto simp: client_send_def Let_def case_prod_beta split: if_splits)
  show "cl_can_send s' = cl_can_send s" and "cl_start_time s' = cl_start_time s" and "cl_duration s' = cl_duration s"
    using assms
    by (auto simp: client_round_def Let_def dest!: select rate send
        split: if_splits sum.splits option.splits prod.splits)
qed

lemma client_over_cong: "cl_start_time s' = cl_start_time s \<Longrightarrow> cl_duration s' = cl_duration s \<Longrightarrow> client_over s' = client_over s"
  by (simp add: client_over_def fun_eq_iff)

text \<open>The waiting phase.\<close>

lemma client_result_waiting:
  assumes "worker_result (client_iter d F fl cfg cx cs) (\<lambda>_. True) x r" and "\<not> cl_can_send (fst x)"
  shows "\<exists>k. r = (fst x, clock_reads d (Suc k) (snd x)) \<and>
     (\<forall>j < k. \<not> client_over (fst x) (rte_get_timer_cycles d (clock_reads d j (snd x)))) \<and>
     client_over (fst x) (rte_get_timer_cycles d (clock_reads d k (snd x)))"
  using assms
proof (induction rule: worker_result.induct)
  case (last_round t s s' t')
  then show ?case
    by (cases "client_over s (rte_get_timer_cycles d t)")
       (auto simp: client_iter_over client_iter_waiting intro!: exI [of _ 0])
next
  case (next_round x y z)
  let ?now = "rte_get_timer_cycles d (snd x)"
  have y: "\<not> client_over (fst x) ?now" "y = (fst x, Timer_Read ?now # snd x)"
    using next_round.hyps(1) next_round.prems
    by (cases "client_over (fst x) ?now"; auto simp: client_iter_over client_iter_waiting elim!: worker_step.cases)+
  obtain k where k: "z = (fst y, clock_reads d (Suc k) (snd y))"
      "\<forall>j < k. \<not> client_over (fst y) (rte_get_timer_cycles d (clock_reads d j (snd y)))"
      "client_over (fst y) (rte_get_timer_cycles d (clock_reads d k (snd y)))"
    using next_round.IH next_round.prems y(2) by auto
  show ?case
    using k y by (intro exI [of _ "Suc k"]) (auto simp: less_Suc_eq_0_disj)
qed simp

lemma client_waiting_result:
  assumes "\<not> cl_can_send s"
    and "\<forall>j < k. \<not> client_over s (rte_get_timer_cycles d (clock_reads d j t))"
    and "client_over s (rte_get_timer_cycles d (clock_reads d k t))"
  shows "worker_result (client_iter d F fl cfg cx cs) (\<lambda>_. True) (s, t) (s, clock_reads d (Suc k) t)"
  using assms(2,3)
proof (induction k arbitrary: t)
  case 0
  then show ?case using assms(1) by (intro last_round) (simp_all add: client_iter_over)
next
  case (Suc k)
  let ?now = "rte_get_timer_cycles d t"
  have "worker_step (client_iter d F fl cfg cx cs) (\<lambda>_. True) (s, t) (s, Timer_Read ?now # t)"
    using Suc.prems(1) assms(1) by (intro worker_step.intros) (auto simp: client_iter_waiting dest: spec [of _ 0])
  moreover have "worker_result (client_iter d F fl cfg cx cs) (\<lambda>_. True) (s, Timer_Read ?now # t)
      (s, clock_reads d (Suc k) (Timer_Read ?now # t))"
    using Suc.prems by (intro Suc.IH) auto
  ultimately show ?case by (simp add: next_round)
qed

text \<open>The whole run, in both directions.\<close>

lemma client_result_sending:
  assumes "worker_result (client_iter d F fl cfg cx cs) (\<lambda>_. True) x (s', t')" and "cl_can_send (fst x)"
    and "client_over (fst x) = client_over s0"
  shows "\<exists>s1 t1. (client_sending d F fl cfg cx cs s0)\<^sup>*\<^sup>* x (s1, t1) \<and> client_drained d s0 s1 t1 s' t'"
  using assms
proof (induction x "(s', t')" rule: worker_result.induct)
  case (last_round t s)
  then show ?case
    by (cases "client_over s (rte_get_timer_cycles d t)")
       (auto simp: client_iter_over client_iter_waiting Let_def split: option.splits sum.splits)
next
  case (next_round x y)
  obtain s t where x: "x = (s, t)" by fastforce
  let ?now = "rte_get_timer_cycles d t"
  let ?stop = "rte_get_timer_cycles d (Timer_Read ?now # t)"
  have step: "client_iter d F fl cfg cx cs s t = Some (Inr (True, fst y, snd y))"
    using next_round.hyps(1) x by (auto elim!: worker_step.cases)
  show ?case
  proof (cases "client_over s ?now")
    case True
    with step next_round.prems(1) x have y: "y = (s\<lparr>cl_can_send := False, cl_start_time := ?stop,
        cl_duration := 2 * rte_get_timer_hz d\<rparr>, Timer_Read ?stop # Timer_Read ?now # t)"
      by (simp add: client_iter_over [OF refl] Let_def prod_eq_iff)
    from client_result_waiting [OF next_round.hyps(2)] y True next_round.prems(2) x show ?thesis
      by (intro exI [of _ s] exI [of _ t]) (auto simp: client_drained_def Let_def simp del: clock_reads.simps(2))
  next
    case False
    obtain s2 t2 where y: "y = (s2, t2)" by fastforce
    have round: "client_round d F fl cfg cx cs ?now s (Timer_Read ?now # t) = Some (Inr (s2, t2))"
      using step next_round.prems(1) False x y
      by (auto simp: client_iter_waiting [OF refl] split: option.splits sum.splits)
    have send: "client_sending d F fl cfg cx cs s0 x y"
      unfolding x y using refl _ round by (rule client_sending.intros) (use False next_round.prems(2) x in simp)
    note keeps = client_round_keeps [OF round]
    have "cl_can_send (fst y)" "client_over (fst y) = client_over s0"
      using keeps(1) client_over_cong [OF keeps(2,3)] next_round.prems x y by simp_all
    from next_round.hyps(3) [OF this] send show ?thesis
      by (meson converse_rtranclp_into_rtranclp)
  qed
qed simp

lemma client_sending_result:
  assumes "(client_sending d F fl cfg cx cs s0)\<^sup>*\<^sup>* x (s1, t1)" and "cl_can_send (fst x)"
    and "client_over (fst x) = client_over s0"
    and "client_drained d s0 s1 t1 s' t'"
  shows "worker_result (client_iter d F fl cfg cx cs) (\<lambda>_. True) x (s', t')"
  using assms(1-3)
proof (induction rule: converse_rtranclp_induct)
  case base
  let ?now = "rte_get_timer_cycles d t1"
  let ?stop = "rte_get_timer_cycles d (Timer_Read ?now # t1)"
  have "worker_step (client_iter d F fl cfg cx cs) (\<lambda>_. True) (s1, t1) (s', Timer_Read ?stop # Timer_Read ?now # t1)"
    using base assms(4) by (intro worker_step.intros) (simp_all add: client_drained_def client_iter_over [OF refl] Let_def)
  moreover have "worker_result (client_iter d F fl cfg cx cs) (\<lambda>_. True) (s', Timer_Read ?stop # Timer_Read ?now # t1) (s', t')"
    using client_waiting_result [of s'] assms(4) by (auto simp: client_drained_def Let_def simp del: clock_reads.simps(2))
  ultimately show ?case by (rule next_round)
next
  case (step x y)
  obtain s t where x: "x = (s, t)" by fastforce
  let ?now = "rte_get_timer_cycles d t"
  obtain s2 t2 where y: "y = (s2, t2)" by fastforce
  have round: "client_round d F fl cfg cx cs ?now s (Timer_Read ?now # t) = Some (Inr (s2, t2))" and over: "\<not> client_over s ?now"
    using step.hyps(1) step.prems(2) x y by (auto elim!: client_sending.cases)
  have go_on: "worker_step (client_iter d F fl cfg cx cs) (\<lambda>_. True) x y"
    using round over step.prems(1) x y by (simp add: worker_step.intros client_iter_waiting [OF refl])
  note keeps = client_round_keeps [OF round]
  have "cl_can_send (fst y)" "client_over (fst y) = client_over s0"
    using keeps(1) client_over_cong [OF keeps(2,3)] step.prems x y by simp_all
  from next_round [OF go_on step.IH [OF this]] show ?case .
qed

section \<open>Accounting, continued\<close>

lemma client_arp_balance:
  assumes "append_ok d" and "tx_ok d"
  shows "client_arp d cx ips t = Some (Inr (macs, t')) \<Longrightarrow> outstanding t' a = outstanding t a"
proof (induction ips arbitrary: t macs)
  case (Cons ip ips)
  then show ?case
    by (fastforce split: option.splits sum.splits dest: get_dst_mac_balance [OF assms, where a = a])
qed simp

lemma client_init_balance:
  assumes "append_ok d" and "tx_ok d" and "client_init d F fl cfg cx g t = Some (Inr (cs, s, t'))"
  shows "outstanding t' a = outstanding t a"
proof -
  have macs: "outstanding t1 a = outstanding t a" if "client_macs d cfg cx t = Some (Inr (ms, t1))" for ms t1
    using that client_arp_balance [OF assms(1,2), where a = a]
    by (auto simp: client_macs_def Let_def split: if_splits sum.splits)
  show ?thesis
    using assms(3) by (auto simp: client_init_def trace_simps dest!: macs split: if_splits option.splits sum.splits prod.splits)
qed

lemma receiver_handle_balance:
  assumes "append_ok d" and "tx_ok d" and "receiver_handle d F fl cx now m (s, t) = Inr (s', t')"
  shows "outstanding t' a = outstanding t a - held [m] a"
proof -
  have lat: "outstanding t2 a = outstanding t1 a" if "receiver_latency d F fl cx f ip k s t1 = Inr (s2, t2)" for f ip k s t1 s2 t2
    using that by (auto simp: receiver_latency_def trace_simps split: if_splits sum.splits)
  have packet: "outstanding t2 a = outstanding t1 a - held [m] a"
    if "receiver_packet d F fl cx now m (s, t1) = Inr (s2, t2)" for t1 s2 t2
    using that by (auto simp: receiver_packet_def trace_simps dest!: lat split: if_splits option.splits sum.splits)
  show ?thesis
    using assms(3) packet check_eth_hdr_balance [OF assms(1,2), where a = a]
    by (fastforce simp: receiver_handle_def trace_simps split: if_splits sum.splits prod.splits)
qed

lemma receiver_rx_handler: "append_ok d \<Longrightarrow> tx_ok d \<Longrightarrow> rx_handler (receiver_handle d F fl cx now) (\<lambda>_. [])"
  by unfold_locales (simp add: receiver_handle_balance)

lemma receiver_poll_balance:
  "receiver_poll d port qs t = (bufs, t') \<Longrightarrow> outstanding t' a = outstanding t a + held bufs a"
  by (induction qs arbitrary: t) (auto simp: trace_simps split: if_splits)

lemma receiver_iter_balance:
  assumes "append_ok d" and "tx_ok d" and "receiver_iter d F fl cx s t = Some (Inr (run, s', t'))"
  shows "outstanding t' a = outstanding t a"
proof -
  let ?now = "rte_get_timer_cycles d t"
  obtain bufs t1 where poll: "receiver_poll d (ucast (cx_dpdk_port_id cx)) (receiver_queues cx) (Timer_Read ?now # t) = (bufs, t1)"
    by fastforce
  have "fold_res (receiver_handle d F fl cx ?now) bufs (s, t1) = Inr (s', t')"
    using assms(3) poll by (auto simp: receiver_iter_def trace_simps split: sum.splits)
  from rx_handler.burst_balance [OF receiver_rx_handler [OF assms(1,2)] this, of a]
  show ?thesis using receiver_poll_balance [OF poll, of a] by simp
qed

section \<open>Properties\<close>

text \<open>C7. A client that returns has sent or freed every buffer it allocated and freed every buffer it
  received while resolving addresses, exactly once.\<close>

theorem do_client_balance:
  assumes "append_ok d" and "tx_ok d" and "alloc_ok d"
    and "do_client d F fl cfg cx running g t = Some (Inr (cx', s', t'))"
  shows "outstanding t' a = outstanding t a"
proof -
  obtain cs s1 t1 where init: "client_init d F fl cfg cx g t = Some (Inr (cs, s1, t1))"
    and loop: "client_loop d F fl cfg cx cs running s1 t1 = Some (Inr (s', t'))"
    using assms(4) by (auto simp: do_client_def split: option.splits sum.splits)
  have "outstanding t' a = outstanding t1 a"
    by (rule worker_loop_invariant [OF loop [unfolded client_loop_def]])
      (simp_all add: client_iter_balance [OF assms(1-3)])
  with client_init_balance [OF assms(1,2) init] show ?thesis by simp
qed

text \<open>C26. The receiver thread frees every packet it receives, exactly once.\<close>

theorem run_receiver_thread_balance:
  assumes "append_ok d" and "tx_ok d" and "run_receiver_thread d F fl cx running t = Some (Inr (s', t'))"
  shows "outstanding t' a = outstanding t a"
  by (rule worker_loop_invariant [OF assms(3) [unfolded run_receiver_thread_def receiver_loop_def]])
    (simp_all add: receiver_iter_balance [OF assms(1,2)])

text \<open>C30. The table of queues: with fewer than 65536 flows the flows are spread over the worker's
  queues in turn; with more the loop that fills the table never ends, because its counter has
  16 bits.\<close>

theorem flow_loop_result:
  assumes "count_queues \<noteq> 0"
  shows "flow_loop n qid count_queues 0 (replicate (unat n) 0) =
     (if unat n < 65536 then Some (Inr (map (queue_of_flow qid count_queues) [0..<unat n])) else None)"
  using flow_loop_fills [OF assms, of n 0 "replicate (unat n) 0" qid] flow_loop_diverges [OF assms, of n]
  by (simp add: not_less)

text \<open>C25. With one destination and uniform choice a round always finds its flow: no table is read out of
  bounds, the flow is the offset of the destination port, the queue is the flow's, and the
  invariant is kept.\<close>

theorem client_select_safe:
  assumes "single_dst cx cs" and "client_inv cx s"
  shows "\<exists>ch s'. client_select cs cx s = Inr (ch, s') \<and> client_inv cx s' \<and> cl_dst_port s' = next_port cx (cl_dst_port s) \<and>
     ch_cur_flow ch = cl_flow s \<and> ch_k ch = 0 \<and> ch_selected_q ch = cs_flow_q cs ! nat (cl_flow s) \<and>
     cl_flow s' = int (unat (next_port cx (cl_dst_port s))) - int (unat (cx_base_port_number cx))"
  using assms by (rule client_select_ok)

text \<open>Destination ports take turns: after \<open>m\<close> rounds the port is the base port plus \<open>m\<close> modulo the
  number of flows.\<close>

lemma next_port_cycle:
  assumes "0 < cx_count_flow cx" and "unat (cx_base_port_number cx) + unat (cx_count_flow cx) < 2 ^ 32"
  shows "unat ((next_port cx ^^ m) (cx_base_port_number cx)) =
     unat (cx_base_port_number cx) + m mod unat (cx_count_flow cx)"
proof (induction m)
  case (Suc m)
  let ?c = "unat (cx_count_flow cx)" and ?p = "(next_port cx ^^ m) (cx_base_port_number cx)"
  have c: "0 < ?c" using assms(1) by (simp add: word_gt_0 unat_gt_0)
  then have p: "cx_base_port_number cx \<le> ?p" "unat ?p < unat (cx_base_port_number cx) + ?c"
    using Suc by (simp_all add: word_le_nat_alt)
  show ?case using next_port_eq [OF assms(2) p] Suc mod_less_divisor [OF c, of m] by (auto simp: mod_Suc)
qed simp

text \<open>C40. With two or more destinations, taken in turn, the client aborts: once a round has selected the
  first destination, the next one fails the assertion of line 253, with all tables of the right
  size.\<close>

theorem client_two_destinations:
  assumes "2 \<le> cx_count_dst_ip cx" and "cx_destination_distribution cx = DIST_UNIFORM"
    and "cx_queue_selection_distribution cx = DIST_UNIFORM" and "2 \<le> length (cx_dst_ips cx)"
    and "client_select cs cx s = Inr (ch, s')" and "0 \<le> cl_flow s'" and "cl_flow s' < int (length (cs_flow_q cs))"
  shows "client_select cs cx s' = Inl Assert_Failed"
proof -
  have "cl_selected_dst s' = 1"
    using assms(1,2,5) by (auto simp: client_select_def next_dst_def Let_def split: if_splits sum.splits)
  then show ?thesis using assms(3,4,6,7) by (simp add: client_select_def select_queue_def)
qed

text \<open>C27. The phases of a whole run of a client nobody stops: the loop returns exactly when, after
  rounds of sending that all begin within the duration, the clock passes the end of the
  duration; sending then stops for good, and the client reads the clock, and does nothing else,
  until more than two seconds have passed since sending stopped. The counters it returns are those of
  the last round of sending.\<close>

theorem client_loop_phases:
  assumes "cl_can_send s"
  shows "client_loop d F fl cfg cx cs (\<lambda>_. True) s t = Some (Inr (s', t')) \<longleftrightarrow>
     (\<exists>s1 t1. (client_sending d F fl cfg cx cs s)\<^sup>*\<^sup>* (s, t) (s1, t1) \<and> client_drained d s s1 t1 s' t')"
  (is "_ \<longleftrightarrow> ?rhs")
proof
  assume "client_loop d F fl cfg cx cs (\<lambda>_. True) s t = Some (Inr (s', t'))"
  then have "worker_result (client_iter d F fl cfg cx cs) (\<lambda>_. True) (s, t) (s', t')"
    by (simp add: client_loop_def worker_loop_iff)
  from client_result_sending [OF this, unfolded fst_conv, OF assms refl] show ?rhs .
next
  assume ?rhs
  then have "worker_result (client_iter d F fl cfg cx cs) (\<lambda>_. True) (s, t) (s', t')"
    using client_sending_result [of d F fl cfg cx cs s "(s, t)", unfolded fst_conv, OF _ assms refl] by blast
  then show "client_loop d F fl cfg cx cs (\<lambda>_. True) s t = Some (Inr (s', t'))"
    by (simp add: client_loop_def worker_loop_iff)
qed

section \<open>Examples\<close>

lemma client_sim_ok: "append_ok client_sim" "tx_ok client_sim" "alloc_ok client_sim" "rte_get_timer_hz client_sim = 1000"
  "rte_get_timer_cycles client_sim t = of_nat (length t)" "rte_eth_tx_burst client_sim t p q ms = min 1 (length ms)"
  "rte_eth_rx_burst client_sim t p q n = []" "data_room client_sim a = 1920"
  "rte_pktmbuf_alloc_bulk client_sim t pool n = Some (map empty_mbuf [0..<n])"
  by (simp_all add: client_sim_def) (simp_all add: sim_def)

lemma client_cx_sel: "cx_count_dst_ip client_cx = 1" "cx_dst_ips client_cx = [0xC0A80102]" "cx_batch client_cx = 1"
  "cx_count_queues client_cx = 1" "\<not> cx_do_arp client_cx" "cx_delay_cycles client_cx = 0" "cx_rate_limit client_cx = False"
  "cx_payload_length client_cx = 64" "cx_duration client_cx = 1" "count_flows client_cx = 2"
  "cx_queue_selection_distribution client_cx = DIST_UNIFORM" "cx_destination_distribution client_cx = DIST_UNIFORM"
  "cx_base_port_number client_cx = 8080" "cx_count_flow client_cx = 2" "cx_default_qid client_cx = 0"
  "cx_tx_mem_pool client_cx = 1" "cx_dpdk_port_id client_cx = 0"
  by (simp_all add: client_cx_def count_flows_def)

lemma client_build_example:
  assumes "append_ok d" and "data_room d 0 = 1920"
  shows "\<exists>b info' g'. client_build d udp_flags default_config client_cx cs
      (client_pkt_info default_config client_cx cs ch s) (empty_mbuf 0)
      (([], client_pkt_info default_config client_cx cs ch s, g), t) =
        Inr (([b], info', g'), Timer_Read (rte_get_timer_cycles d t) # t)"
proof -
  let ?info = "client_pkt_info default_config client_cx cs ch s"
  have sel: "select_client_addr ?info g = Inr (?info, g)"
    by (simp add: select_client_addr_def client_pkt_info_def default_config_def set_client_port_def zero_config_def)
  have len: "pi_payload_length ?info = 64" "pi_use_vlan ?info = False"
    by (simp_all add: client_pkt_info_def client_cx_def)
  obtain b where "prepare_udp d (empty_mbuf 0) ?info g = Inr (b, ?info, g, Some 42)"
    using prepare_udp_frame [OF assms(1) _ sel, of "empty_mbuf 0"]
    by (auto simp: len ip_offset_of_def assms(2) empty_mbuf_def)
  then show ?thesis
    by (simp add: client_build_def client_prepare_def client_payload_def udp_flags_def payload_timestamp_def trace_simps
        payload_constant_num_ok client_cx_sel)
qed

lemma client_example_run:
  "\<exists>cx' s' t'. do_client client_sim exact_fpu udp_flags default_config client_cx (\<lambda>t. length t < 5) rng_init [] =
     Some (Inr (cx', s', t')) \<and> cl_total_sent s' = [1]"
proof -
  have two: "replicate 2 x = [x, x]" for x by (simp add: numeral_2_eq_2)
  have table: "flow_loop 2 0 1 0 [0, 0] = Some (Inr [0, 0])"
    using flow_loop_fills [of 1 2 0 "[0, 0]" 0] by (simp add: queue_of_flow_def upt_rec)
  have macs: "client_macs client_sim default_config client_cx t = Some (Inr ([Ether_Addr 0 0 0 0 0 0], t))" for t
    by (simp add: client_macs_def client_cx_sel copy_mac_def default_config_def set_client_port_def zero_config_def)
  have gens: "client_gens exact_fpu udp_flags default_config client_cx = Inr (single_gen 2, single_gen 2, None, None)"
    by (simp add: client_gens_def client_cx_sel single_table udp_flags_def default_config_def set_client_port_def zero_config_def)
  obtain cs s where init: "client_init client_sim exact_fpu udp_flags default_config client_cx rng_init [] =
      Some (Inr (cs, s, [Timer_Read 0]))"
    and cs: "cs_flow_q cs = [0, 0]" "cs_server_eth cs = [Ether_Addr 0 0 0 0 0 0]"
    and s: "cl_can_send s" "cl_start_time s = 0" "cl_duration s = 1000" "cl_selected_dst s = 0" "cl_flow s = 0"
      "cl_dst_port s = 8080" "cl_tp_start_ts s = 0" "cl_throughput s = [0, 0]" "cl_total_sent s = [0]" "cl_failed_to_push s = [0]"
    by (simp add: client_init_def client_cx_sel table gens macs trace_simps client_sim_ok client_duration_def two)
  obtain ch s1 where sel: "client_select cs client_cx s = Inr (ch, s1)" and ch: "ch_k ch = 0" "ch_cur_flow ch = 0"
    and s1: "cl_start_time s1 = 0" "cl_tp_start_ts s1 = 0" "cl_throughput s1 = [0, 0]" "cl_total_sent s1 = [0]" "cl_failed_to_push s1 = [0]"
    using s cs by (simp add: client_select_def select_queue_def next_dst_def client_cx_sel Let_def)
  have rate: "client_rate client_sim exact_fpu client_cx 0 1 s1 = Inr (s1, False)"
    using s1 by (simp add: client_rate_def client_sim_ok exact_fpu_def client_cx_sel)
  obtain b i g where build: "client_build client_sim udp_flags default_config client_cx cs
      (client_pkt_info default_config client_cx cs ch s1) (empty_mbuf 0)
      (([], client_pkt_info default_config client_cx cs ch s1, cl_rng s1), [Mbuf_Alloc [empty_mbuf 0], Timer_Read 1, Timer_Read 0]) =
      Inr (([b], i, g), [Timer_Read 3, Mbuf_Alloc [empty_mbuf 0], Timer_Read 1, Timer_Read 0])"
    using client_build_example [OF client_sim_ok(1,8), of cs ch s1 "cl_rng s1" "[Mbuf_Alloc [empty_mbuf 0], Timer_Read 1, Timer_Read 0]"]
    by (auto simp: client_sim_ok)
  have "\<exists>s2 t2. client_iter client_sim exact_fpu udp_flags default_config client_cx cs s [Timer_Read 0] =
      Some (Inr (True, s2, t2)) \<and> length t2 = 5 \<and> cl_total_sent s2 = [1]"
    using s sel ch s1 rate build
    by (simp add: client_iter_def client_round_def client_send_def client_delay_def trace_simps client_sim_ok client_cx_sel)
  then obtain s2 t2 where iter: "client_iter client_sim exact_fpu udp_flags default_config client_cx cs s [Timer_Read 0] =
      Some (Inr (True, s2, t2))" and end2: "length t2 = 5" "cl_total_sent s2 = [1]" by blast
  have "client_loop client_sim exact_fpu udp_flags default_config client_cx cs (\<lambda>t. length t < 5) s [Timer_Read 0] = Some (Inr (s2, t2))"
    unfolding client_loop_def
    by (subst worker_loop.simps, simp add: iter, subst worker_loop.simps, simp add: end2)
  then show ?thesis using init end2 by (simp add: do_client_def)
qed

theorem do_client_balance_witness:
  "\<exists>cx' s' t'. do_client client_sim exact_fpu udp_flags default_config client_cx (\<lambda>t. length t < 5) rng_init [] =
     Some (Inr (cx', s', t')) \<and> outstanding t' 0 = 0"
  using client_example_run do_client_balance [OF client_sim_ok(1-3), where t = "[]" and a = 0] by fastforce

theorem run_receiver_thread_balance_witness:
  "\<exists>s' t'. run_receiver_thread client_sim exact_fpu udp_flags client_cx (\<lambda>t. t = []) [] = Some (Inr (s', t')) \<and>
     outstanding t' 0 = 0"
proof -
  have "\<exists>s' t'. run_receiver_thread client_sim exact_fpu udp_flags client_cx (\<lambda>t. t = []) [] = Some (Inr (s', t'))"
    unfolding run_receiver_thread_def receiver_loop_def
    by (subst worker_loop.simps, simp add: receiver_iter_def receiver_queues_def client_cx_sel trace_simps client_sim_ok,
        subst worker_loop.simps, simp)
  then show ?thesis
    using run_receiver_thread_balance [OF client_sim_ok(1,2), where t = "[]" and a = 0] by fastforce
qed

theorem flow_loop_result_witness:
  "flow_loop 65536 0 4 0 (replicate 65536 0) = None"
  using flow_loop_result [of 4 65536 0] by simp

lemma client_example_inv: "single_dst client_cx client_cs" "client_inv client_cx client_start"
  by (simp_all add: single_dst_def client_inv_def client_cx_sel client_cs_def client_start_def)

theorem client_select_safe_witness:
  "\<exists>ch s'. client_select client_cs client_cx client_start = Inr (ch, s') \<and> client_inv client_cx s' \<and> ch_selected_q ch = 0"
  using client_select_safe [OF client_example_inv] by (auto simp: client_cs_def client_start_def)

theorem client_two_destinations_witness:
  "\<exists>ch s'. client_select (client_cs\<lparr>cs_flow_q := [0, 0, 0, 0]\<rparr>) two_dst_cx client_start = Inr (ch, s') \<and>
     client_select (client_cs\<lparr>cs_flow_q := [0, 0, 0, 0]\<rparr>) two_dst_cx s' = Inl Assert_Failed"
proof -
  let ?cs = "client_cs\<lparr>cs_flow_q := [0, 0, 0, 0]\<rparr>"
  obtain ch s' where sel: "client_select ?cs two_dst_cx client_start = Inr (ch, s')" "cl_flow s' = 3"
    by (simp add: client_select_def select_queue_def next_dst_def next_port_def two_dst_cx_def client_cx_def client_cs_def
        client_start_def)
  have "client_select ?cs two_dst_cx s' = Inl Assert_Failed"
    by (rule client_two_destinations [OF _ _ _ _ sel(1)]) (simp_all add: sel(2) two_dst_cx_def client_cx_def)
  then show ?thesis using sel by blast
qed

lemma late_sim_ok: "append_ok late_sim" "data_room late_sim 0 = 1920" "rte_get_timer_hz late_sim = 1000"
  "rte_get_timer_cycles late_sim t = (if length t < 4 then 1 else 1500) * of_nat (length t)"
  "rte_eth_tx_burst late_sim t p q ms = min 1 (length ms)"
  "rte_pktmbuf_alloc_bulk late_sim t pool n = Some (map empty_mbuf [0..<n])"
  by (simp_all add: late_sim_def) (simp_all add: sim_def)

lemma late_round:
  "\<exists>s1 b. client_round late_sim exact_fpu udp_flags default_config client_cx client_cs 0 client_start [Timer_Read 0] =
     Some (Inr (s1, [Tx_Burst 0 0 [b] 1, Timer_Read 2, Mbuf_Alloc [empty_mbuf 0], Timer_Read 0])) \<and> cl_throughput s1 = [1, 0]"
proof -
  obtain ch s1 where sel: "client_select client_cs client_cx client_start = Inr (ch, s1)"
    and ch: "ch_k ch = 0" "ch_cur_flow ch = 0" "ch_selected_q ch = 0"
    and s1: "cl_start_time s1 = 0" "cl_tp_start_ts s1 = 0" "cl_throughput s1 = [0, 0]"
    by (simp add: client_select_def select_queue_def next_dst_def client_cx_sel Let_def client_start_def client_cs_def)
  have rate: "client_rate late_sim exact_fpu client_cx 0 0 s1 = Inr (s1, False)"
    using s1 by (simp add: client_rate_def late_sim_ok exact_fpu_def client_cx_sel)
  obtain b i g where build: "client_build late_sim udp_flags default_config client_cx client_cs
      (client_pkt_info default_config client_cx client_cs ch s1) (empty_mbuf 0)
      (([], client_pkt_info default_config client_cx client_cs ch s1, cl_rng s1), [Mbuf_Alloc [empty_mbuf 0], Timer_Read 0]) =
      Inr (([b], i, g), [Timer_Read 2, Mbuf_Alloc [empty_mbuf 0], Timer_Read 0])"
    using client_build_example [OF late_sim_ok(1,2), of client_cs ch s1 "cl_rng s1" "[Mbuf_Alloc [empty_mbuf 0], Timer_Read 0]"]
    by (auto simp: late_sim_ok)
  show ?thesis
    using sel ch s1 rate build
    by (simp add: client_round_def client_send_def client_delay_def trace_simps late_sim_ok client_cx_sel)
qed

theorem client_loop_phases_witness:
  "\<exists>s' t'. client_loop late_sim exact_fpu udp_flags default_config client_cx client_cs (\<lambda>_. True) client_start [] =
       Some (Inr (s', t')) \<and> cl_throughput s' = [1, 0] \<and> \<not> cl_can_send s' \<and> cl_start_time s' = 7500 \<and>
     take 4 t' = [Timer_Read 10500, Timer_Read 9000, Timer_Read 7500, Timer_Read 6000]"
proof -
  obtain s1 b where round: "client_round late_sim exact_fpu udp_flags default_config client_cx client_cs 0 client_start
      [Timer_Read 0] = Some (Inr (s1, [Tx_Burst 0 0 [b] 1, Timer_Read 2, Mbuf_Alloc [empty_mbuf 0], Timer_Read 0]))"
    and s1: "cl_throughput s1 = [1, 0]"
    using late_round by blast
  let ?t1 = "[Tx_Burst 0 0 [b] 1, Timer_Read 2, Mbuf_Alloc [empty_mbuf 0], Timer_Read 0]"
  let ?s' = "s1\<lparr>cl_can_send := False, cl_start_time := 7500, cl_duration := 2000\<rparr>"
  let ?t' = "Timer_Read 10500 # Timer_Read 9000 # Timer_Read 7500 # Timer_Read 6000 # ?t1"
  have sending: "client_sending late_sim exact_fpu udp_flags default_config client_cx client_cs client_start
      (client_start, []) (s1, ?t1)"
    using round by (intro client_sending.intros [of 0]) (simp_all add: late_sim_ok client_over_def client_start_def)
  have drained: "client_drained late_sim client_start s1 ?t1 ?s' ?t'"
    unfolding client_drained_def Let_def
    by (intro conjI exI [of _ 1]) (simp_all add: late_sim_ok client_over_def client_start_def)
  have "cl_can_send client_start" by (simp add: client_start_def)
  from client_loop_phases [OF this, of late_sim exact_fpu udp_flags default_config client_cx client_cs "[]" ?s' ?t'] sending drained
  have "client_loop late_sim exact_fpu udp_flags default_config client_cx client_cs (\<lambda>_. True) client_start [] =
      Some (Inr (?s', ?t'))" by blast
  then show ?thesis using s1 by simp
qed

end
