(* ===== verification/Server.thy ===== *)
theory Server
  imports Exp
begin

text \<open>
  The echo server, \<open>do_server\<close> of \<open>server.c\<close>: one worker polls its queues in turn, discards what
  is not addressed to it, swaps the addresses and ports of the rest, and sends them back. The
  loop is split the way the code nests it: one packet, one burst, the transmission of the
  echoes, one round of the main loop, the main loop. \<open>print_stats\<close> and all other output is left
  out; \<open>rate_limit\<close> is constantly 0 in the code, so the test on it never skips a round.

  \<open>cntx->running\<close> is cleared by other threads: it is an argument, a function of the trace.
\<close>

section \<open>Model\<close>

abbreviation (input) "BURST_SIZE \<equiv> 1024 :: nat"
abbreviation (input) "TX_BUF_SIZE \<equiv> 64 :: nat"

text \<open>The local variables of \<open>do_server\<close> that change in the loop. \<open>sv_tx_buf\<close> is \<open>tx_buf[0..k)\<close>.\<close>

record server_state =
  sv_q_index :: u32
  sv_first_pkt :: bool
  sv_throughput :: u64
  sv_empty_burst :: u64
  sv_start_time :: u64
  sv_exp_begin :: u64
  sv_last_pkt_time :: u64
  sv_queue_status :: "u64 list"
  sv_sum_nb_rx :: int
  sv_count_rx :: int
  sv_nb_pkts_process :: u32
  sv_tx_buf :: "mbuf list"

subsection \<open>One packet\<close>

text \<open>Swapping MAC addresses, IP addresses and ports in place; \<open>ip\<close> is the offset of the IPv4
  header.\<close>

definition echo_swap :: "nat \<Rightarrow> mem \<Rightarrow> mem" where
  "echo_swap ip f =
     (let udp = ip + IPV4_HDR_LEN;
          tmp_addr = ld_mac f ETH_SRC;
          f = st_mac f ETH_SRC (ld_mac f ETH_DST);
          f = st_mac f ETH_DST tmp_addr;
          tmp_ip = ld32 f (ip + IP_SRC);
          f = st32 f (ip + IP_SRC) (ld32 f (ip + IP_DST));
          f = st32 f (ip + IP_DST) tmp_ip;
          tmp = ld16 f (udp + UDP_SRC);
          f = st16 f (udp + UDP_SRC) (ld16 f (udp + UDP_DST))
      in st16 f (udp + UDP_DST) tmp)"

definition server_ip_offset :: "cntx \<Rightarrow> nat" where
  "server_ip_offset cx = (if cx_use_vlan cx then ETHER_HDR_LEN + VLAN_HDR_LEN else ETHER_HDR_LEN)"

text \<open>The body of the loop behind the check of the Ethernet header.\<close>

definition server_packet ::
  "dpdk \<Rightarrow> cntx \<Rightarrow> u64 \<Rightarrow> mbuf \<Rightarrow> server_state \<times> trace \<Rightarrow> (server_state \<times> trace) res" where
  "server_packet d cx current_time buf st =
     (let (s, t) = st;
          f = pkt buf;
          ether_type = rte_be_to_cpu_16 d (ld16 f ETH_TYPE);
          ip = server_ip_offset cx
      in if cx_use_vlan cx \<and> ether_type \<noteq> RTE_ETHER_TYPE_VLAN \<or>
            \<not> cx_use_vlan cx \<and> ether_type \<noteq> RTE_ETHER_TYPE_IPV4
         then Inr (s, pktmbuf_free buf t)
         else if rte_be_to_cpu_32 d (ld32 f (ip + IP_DST)) \<noteq> cx_src_ip cx
         then Inr (s, pktmbuf_free buf t)
         else
           let s = s\<lparr>sv_last_pkt_time := current_time\<rparr>;
               s = (if \<not> sv_first_pkt s then s\<lparr>sv_first_pkt := True, sv_start_time := current_time\<rparr> else s);
               s = s\<lparr>sv_throughput := sv_throughput s + 1, sv_nb_pkts_process := sv_nb_pkts_process s + 1\<rparr>
           in if \<not> cx_bidi cx then Inr (s, pktmbuf_free buf t)
              else if TX_BUF_SIZE \<le> length (sv_tx_buf s) then Inl (Out_Of_Bounds (length (sv_tx_buf s)))
              else Inr (s\<lparr>sv_tx_buf := sv_tx_buf s @ [buf\<lparr>pkt := echo_swap ip f\<rparr>]\<rparr>, t))"

definition server_handle ::
  "dpdk \<Rightarrow> cntx \<Rightarrow> u64 \<Rightarrow> mbuf \<Rightarrow> server_state \<times> trace \<Rightarrow> (server_state \<times> trace) res" where
  "server_handle d cx current_time buf st =
     (let (s, t) = st
      in if cx_do_arp cx
         then case check_eth_hdr d (cx_src_ip cx) (cx_my_eth cx) buf (cx_tx_mem_pool cx) 0 t of
                Inl e \<Rightarrow> Inl e
              | Inr (valid_pkt, t) \<Rightarrow>
                  if \<not> valid_pkt then Inr (s, pktmbuf_free buf t)
                  else server_packet d cx current_time buf (s, t)
         else server_packet d cx current_time buf (s, t))"

subsection \<open>Sending the echoes\<close>

text \<open>The loop that moves the packets the device did not take to the front.\<close>

definition shift_front :: "nat \<Rightarrow> 'a list \<Rightarrow> 'a list" where
  "shift_front nb_tx tx_buf = fold (\<lambda>i tx_buf. tx_buf[i - nb_tx := tx_buf ! i]) [nb_tx..<length tx_buf] tx_buf"

text \<open>\<open>while (k > 0)\<close>: it may never end, when the device takes nothing any more.\<close>

partial_function (option) server_flush :: "dpdk \<Rightarrow> u16 \<Rightarrow> u16 \<Rightarrow> mbuf list \<Rightarrow> trace \<Rightarrow> trace option" where
  "server_flush d port qid tx_buf t =
     (if 0 < length tx_buf
      then let (nb_tx, t) = tx_burst d port qid tx_buf t
           in server_flush d port qid (take (length tx_buf - nb_tx) (shift_front nb_tx tx_buf)) t
      else Some t)"

subsection \<open>The main loop\<close>

text \<open>The statistics are reset once per second.\<close>

definition server_stats :: "dpdk \<Rightarrow> u64 \<Rightarrow> server_state \<Rightarrow> server_state" where
  "server_stats d current_time s =
     (if current_time - sv_start_time s > rte_get_timer_hz d
      then s\<lparr>sv_throughput := 0, sv_sum_nb_rx := 0, sv_count_rx := 0, sv_start_time := current_time,
             sv_empty_burst := 0\<rparr>
      else s)"

text \<open>What follows a non-empty burst: the packets, then the deadline of the queue and the
  echoes. The product of the delay is taken in 32 bits.\<close>

definition server_burst ::
  "dpdk \<Rightarrow> cntx \<Rightarrow> u16 \<Rightarrow> u64 \<Rightarrow> mbuf list \<Rightarrow> server_state \<Rightarrow> trace \<Rightarrow> (server_state \<times> trace) res option" where
  "server_burst d cx qid current_time rx_bufs s t =
     (let s = s\<lparr>sv_sum_nb_rx := sv_sum_nb_rx s + int (length rx_bufs), sv_count_rx := sv_count_rx s + 1,
               sv_nb_pkts_process := 0, sv_tx_buf := []\<rparr>
      in case fold_res (server_handle d cx current_time) rx_bufs (s, t) of
           Inl e \<Rightarrow> Some (Inl e)
         | Inr (s, t) \<Rightarrow>
             if \<not> cx_bidi cx then Some (Inr (s, t))
             else
               let (now, t) = timer_cycles d t;
                   delay_cycles = (ucast (cx_delay_cycles cx) :: u32);
                   s = s\<lparr>sv_queue_status := (sv_queue_status s)
                          [unat qid := now + ucast (sv_nb_pkts_process s * delay_cycles)]\<rparr>
               in case server_flush d (ucast (cx_dpdk_port_id cx)) qid (sv_tx_buf s) t of
                    None \<Rightarrow> None
                  | Some t \<Rightarrow> Some (Inr (s\<lparr>sv_tx_buf := []\<rparr>, t)))"

text \<open>One round. The first component of the result is \<open>run\<close>.\<close>

definition server_iter ::
  "dpdk \<Rightarrow> cntx \<Rightarrow> server_state \<Rightarrow> trace \<Rightarrow> (bool \<times> server_state \<times> trace) res option" where
  "server_iter d cx s t =
     (if length (cx_managed_queues cx) \<le> unat (sv_q_index s)
      then Some (Inl (Out_Of_Bounds (unat (sv_q_index s))))
      else if cx_count_queues cx = 0 then Some (Inl Div_By_Zero)
      else
        let qid = (ucast (cx_managed_queues cx ! unat (sv_q_index s)) :: u16);
            s = s\<lparr>sv_q_index := (sv_q_index s + 1) mod cx_count_queues cx\<rparr>;
            (current_time, t) = timer_cycles d t;
            hz = rte_get_timer_hz d
        in if \<not> sv_first_pkt s \<and> current_time - sv_exp_begin s > 60 * hz then Some (Inr (False, s, t))
           else
             let s = server_stats d current_time s
             in if length (sv_queue_status s) \<le> unat qid then Some (Inl (Out_Of_Bounds (unat qid)))
                else if sv_queue_status s ! unat qid > current_time then Some (Inr (True, s, t))
                else
                  let (rx_bufs, t) = rx_burst d (ucast (cx_dpdk_port_id cx)) qid BURST_SIZE t
                  in if rx_bufs = []
                     then let s = s\<lparr>sv_empty_burst := sv_empty_burst s + 1\<rparr>
                          in Some (Inr (\<not> (sv_first_pkt s \<and> current_time - sv_last_pkt_time s > 2 * hz), s, t))
                     else (case server_burst d cx qid current_time rx_bufs s t of
                             None \<Rightarrow> None
                           | Some (Inl e) \<Rightarrow> Some (Inl e)
                           | Some (Inr (s, t)) \<Rightarrow> Some (Inr (True, s, t))))"

definition server_loop ::
  "dpdk \<Rightarrow> cntx \<Rightarrow> (trace \<Rightarrow> bool) \<Rightarrow> server_state \<Rightarrow> trace \<Rightarrow> (server_state \<times> trace) res option" where
  "server_loop d cx running = worker_loop (server_iter d cx) running"

definition do_server :: "dpdk \<Rightarrow> cntx \<Rightarrow> (trace \<Rightarrow> bool) \<Rightarrow> trace \<Rightarrow> (cntx \<times> server_state \<times> trace) res option" where
  "do_server d cx running t =
     (let (exp_begin, t) = timer_cycles d t;
          s = \<lparr>sv_q_index = 0, sv_first_pkt = False, sv_throughput = 0, sv_empty_burst = 0,
               sv_start_time = exp_begin, sv_exp_begin = exp_begin, sv_last_pkt_time = 0,
               sv_queue_status = replicate (unat (cx_count_queues cx)) 0, sv_sum_nb_rx = 0, sv_count_rx = 0,
               sv_nb_pkts_process = 0, sv_tx_buf = []\<rparr>
      in case server_loop d cx running s t of
           None \<Rightarrow> None
         | Some (Inl e) \<Rightarrow> Some (Inl e)
         | Some (Inr (s, t)) \<Rightarrow> Some (Inr (cx\<lparr>cx_running := False\<rparr>, s, t)))"

section \<open>Specification\<close>

text \<open>Where the byte at offset \<open>i\<close> of an echoed packet comes from.\<close>

definition echo_index :: "nat \<Rightarrow> nat \<Rightarrow> nat" where
  "echo_index ip i =
     (if i < 6 then i + 6 else if i < 12 then i - 6
      else if ip + 12 \<le> i \<and> i < ip + 16 then i + 4 else if ip + 16 \<le> i \<and> i < ip + 20 then i - 4
      else if ip + 20 \<le> i \<and> i < ip + 22 then i + 2 else if ip + 22 \<le> i \<and> i < ip + 24 then i - 2
      else i)"

text \<open>A packet for this server, behind the check of the Ethernet header.\<close>

definition server_accepts :: "dpdk \<Rightarrow> cntx \<Rightarrow> mbuf \<Rightarrow> bool" where
  "server_accepts d cx m \<longleftrightarrow>
     rte_be_to_cpu_16 d (ld16 (pkt m) ETH_TYPE) = (if cx_use_vlan cx then RTE_ETHER_TYPE_VLAN else RTE_ETHER_TYPE_IPV4) \<and>
     rte_be_to_cpu_32 d (ld32 (pkt m) (server_ip_offset cx + IP_DST)) = cx_src_ip cx"

definition echo_of :: "cntx \<Rightarrow> mbuf \<Rightarrow> mbuf" where
  "echo_of cx m = m\<lparr>pkt := echo_swap (server_ip_offset cx) (pkt m)\<rparr>"

text \<open>The counters after \<open>n\<close> accepted packets.\<close>

definition server_seen :: "u64 \<Rightarrow> nat \<Rightarrow> server_state \<Rightarrow> server_state" where
  "server_seen now n s =
     (if n = 0 then s
      else s\<lparr>sv_last_pkt_time := now, sv_first_pkt := True,
             sv_start_time := (if sv_first_pkt s then sv_start_time s else now),
             sv_throughput := sv_throughput s + of_nat n,
             sv_nb_pkts_process := sv_nb_pkts_process s + of_nat n\<rparr>)"

text \<open>What has been handed over to a queue, in order.\<close>

fun transmitted :: "u16 \<Rightarrow> u16 \<Rightarrow> trace \<Rightarrow> mbuf list" where
  "transmitted port qid [] = []"
| "transmitted port qid (Tx_Burst p q ms n # t) =
     transmitted port qid t @ (if p = port \<and> q = qid then take n ms else [])"
| "transmitted port qid (e # t) = transmitted port qid t"

text \<open>What has been received from a queue, in order.\<close>

fun delivered :: "u16 \<Rightarrow> u16 \<Rightarrow> trace \<Rightarrow> mbuf list" where
  "delivered port qid [] = []"
| "delivered port qid (Rx_Burst p q ms # t) = delivered port qid t @ (if p = port \<and> q = qid then ms else [])"
| "delivered port qid (e # t) = delivered port qid t"

text \<open>The abstract echo service: for every queue, what came in and what went out. One step takes a
  burst from a queue and sends the echoes of the packets that are for the server, in order.\<close>

type_synonym echo_state = "(u16 \<Rightarrow> mbuf list) \<times> (u16 \<Rightarrow> mbuf list)"

inductive echo_step :: "dpdk \<Rightarrow> cntx \<Rightarrow> echo_state \<Rightarrow> echo_state \<Rightarrow> bool" for d cx where
  "echo_step d cx (rx, tx) (rx(q := rx q @ ms), tx(q := tx q @ map (echo_of cx) (filter (server_accepts d cx) ms)))"

definition echo_abs :: "u16 \<Rightarrow> trace \<Rightarrow> echo_state" where
  "echo_abs port t = (\<lambda>q. delivered port q t, \<lambda>q. transmitted port q t)"

inductive_cases echo_stepE: "echo_step d cx (rx, tx) (rx', tx')"

text \<open>A device that does not refuse a burst for ever: after some number of refusals it takes at
  least one packet.\<close>

definition tx_fair :: "dpdk \<Rightarrow> u16 \<Rightarrow> u16 \<Rightarrow> bool" where
  "tx_fair d port qid \<longleftrightarrow>
     (\<forall>t ms. ms \<noteq> [] \<longrightarrow> (\<exists>n. 0 < rte_eth_tx_burst d (replicate n (Tx_Burst port qid ms 0) @ t) port qid ms))"

text \<open>The queues of a worker: as many as \<open>count_queues\<close>, each usable as an index into
  \<open>queue_status\<close>.\<close>

definition queues_ok :: "cntx \<Rightarrow> bool" where
  "queues_ok cx \<longleftrightarrow> 0 < cx_count_queues cx \<and> length (cx_managed_queues cx) = unat (cx_count_queues cx) \<and>
     list_all (\<lambda>q. unat (ucast q :: u16) < unat (cx_count_queues cx)) (cx_managed_queues cx)"

definition server_inv :: "cntx \<Rightarrow> server_state \<Rightarrow> bool" where
  "server_inv cx s \<longleftrightarrow> unat (sv_q_index s) < unat (cx_count_queues cx) \<and>
     length (sv_queue_status s) = unat (cx_count_queues cx)"

text \<open>Buffers for ARP replies are empty and have room for one.\<close>

definition arp_room :: "dpdk \<Rightarrow> mempool \<Rightarrow> bool" where
  "arp_room d pool \<longleftrightarrow>
     (\<forall>t m. rte_pktmbuf_alloc d t pool = Some m \<longrightarrow> data_len m = 0 \<and> 42 \<le> data_room d (buf_addr m))"

text \<open>Values for the examples: a worker for one queue, a packet, a device that delivers the packet
  once and takes one packet at a time, and the state at the start.\<close>

definition server_cx :: "u32 \<Rightarrow> cntx" where
  "server_cx q = \<lparr>cx_mode = mode_server, cx_rx_mem_pool = 0, cx_tx_mem_pool = 1, cx_worker_id = 0,
     cx_dpdk_port_id = 0, cx_default_qid = 0, cx_my_eth = Ether_Addr 2 0 0 0 0 2, cx_src_ip = 0xC0A80102,
     cx_src_port = 8080, cx_count_queues = 1, cx_use_vlan = False, cx_bidi = True, cx_do_arp = False,
     cx_delay_us = 0, cx_delay_cycles = 0, cx_managed_queues = [q], cx_duration = 0, cx_dst_ips = [],
     cx_count_dst_ip = 0, cx_dst_port = 0, cx_payload_length = 64, cx_running = True, cx_count_flow = 1,
     cx_base_port_number = 0, cx_destination_distribution = DIST_UNIFORM,
     cx_queue_selection_distribution = DIST_UNIFORM, cx_rate_limit = False, cx_rate = 0, cx_batch = 32\<rparr>"

definition request_to :: "nat \<Rightarrow> u32 \<Rightarrow> mbuf" where
  "request_to a ip = (empty_mbuf a)\<lparr>pkt := st32 (st16 (\<lambda>_. 0) ETH_TYPE (bswap16 RTE_ETHER_TYPE_IPV4))
     (ETHER_HDR_LEN + IP_DST) (bswap32 ip)\<rparr>"

definition server_sim :: dpdk where
  "server_sim = sim (\<lambda>t. of_nat (10000 * length t))
     (\<lambda>t q. if length t = 2 then [request_to 7 0xC0A80102] else []) (\<lambda>_. 1) (Ether_Addr 2 0 0 0 0 2)"

definition server_start :: server_state where
  "server_start = \<lparr>sv_q_index = 0, sv_first_pkt = False, sv_throughput = 0, sv_empty_burst = 0,
     sv_start_time = 0, sv_exp_begin = 0, sv_last_pkt_time = 0, sv_queue_status = [0], sv_sum_nb_rx = 0,
     sv_count_rx = 0, sv_nb_pkts_process = 0, sv_tx_buf = []\<rparr>"

section \<open>The echo\<close>

lemma echo_swap_bytes:
  assumes "12 \<le> ip"
  shows "echo_swap ip f i = f (echo_index ip i)"
proof -
  consider "i < 6" | "6 \<le> i" "i < 12" | "12 \<le> i" "i < ip + 12" | "ip + 12 \<le> i" "i < ip + 16"
    | "ip + 16 \<le> i" "i < ip + 20" | "ip + 20 \<le> i" "i < ip + 22" | "ip + 22 \<le> i" "i < ip + 24"
    | "ip + 24 \<le> i" by linarith
  then show ?thesis
    using assms
    by cases (simp_all add: echo_swap_def Let_def echo_index_def c16.st_ld_byte c32.st_ld_byte cmac.st_ld_byte,
      (simp add: add.commute | intro conjI impI; arith)+)
qed

lemma echo_index_involution:
  assumes "12 \<le> ip"
  shows "echo_index ip (echo_index ip i) = i"
proof -
  consider "i < 6" | "6 \<le> i" "i < 12" | "12 \<le> i" "i < ip + 12" | "ip + 12 \<le> i" "i < ip + 16"
    | "ip + 16 \<le> i" "i < ip + 20" | "ip + 20 \<le> i" "i < ip + 22" | "ip + 22 \<le> i" "i < ip + 24"
    | "ip + 24 \<le> i" by linarith
  then show ?thesis using assms by cases (simp_all add: echo_index_def, presburger+)
qed

lemma server_ip_offset_bounds [simp]: "12 \<le> server_ip_offset cx"
  by (simp add: server_ip_offset_def)

section \<open>One packet\<close>

lemma server_packet_eq:
  assumes "cx_bidi cx"
  shows "server_packet d cx now m (s, t) =
     (if server_accepts d cx m
      then if length (sv_tx_buf s) < 64
           then Inr ((server_seen now 1 s)\<lparr>sv_tx_buf := sv_tx_buf s @ [echo_of cx m]\<rparr>, t)
           else Inl (Out_Of_Bounds (length (sv_tx_buf s)))
      else Inr (s, Mbuf_Free m # t))"
  using assms
  by (simp add: server_packet_def server_accepts_def server_seen_def echo_of_def trace_simps)

lemma server_packet_unidir:
  assumes "\<not> cx_bidi cx"
  shows "server_packet d cx now m (s, t) =
     Inr (if server_accepts d cx m then server_seen now 1 s else s, Mbuf_Free m # t)"
  using assms
  by (simp add: server_packet_def server_accepts_def server_seen_def trace_simps)

lemma server_seen_Suc: "server_seen now n (server_seen now 1 s) = server_seen now (Suc n) s"
  by (simp add: server_seen_def)

lemma server_seen_tx [simp]:
  "sv_tx_buf (server_seen now n s) = sv_tx_buf s"
  "server_seen now n (s\<lparr>sv_tx_buf := b\<rparr>) = (server_seen now n s)\<lparr>sv_tx_buf := b\<rparr>"
  by (simp_all add: server_seen_def)

lemma server_handle_balance:
  assumes "append_ok d" and "tx_ok d" and "server_handle d cx now m (s, t) = Inr (s', t')"
  shows "outstanding t' a - held (sv_tx_buf s') a = outstanding t a - held (sv_tx_buf s) a - held [m] a"
proof -
  have packet: "outstanding t2 a - held (sv_tx_buf s2) a = outstanding t1 a - held (sv_tx_buf s) a - held [m] a"
    if "server_packet d cx now m (s, t1) = Inr (s2, t2)" for t1 s2 t2
    using that
    by (cases "cx_bidi cx")
      (auto simp: server_packet_eq server_packet_unidir echo_of_def split: if_splits)
  show ?thesis
    using assms(3) packet check_eth_hdr_balance [OF assms(1,2), where a = a]
    by (fastforce simp: server_handle_def trace_simps split: if_splits sum.splits prod.splits)
qed

lemma server_rx_handler: "append_ok d \<Longrightarrow> tx_ok d \<Longrightarrow> rx_handler (server_handle d cx now) sv_tx_buf"
  by unfold_locales (rule server_handle_balance)

section \<open>One burst\<close>

lemma server_burst_bidi:
  assumes "\<not> cx_do_arp cx" and "cx_bidi cx"
  shows "length (sv_tx_buf s) \<le> 64 \<Longrightarrow> fold_res (server_handle d cx now) ms (s, t) =
     (let acc = filter (server_accepts d cx) ms
      in if length (sv_tx_buf s) + length acc \<le> 64
         then Inr ((server_seen now (length acc) s)\<lparr>sv_tx_buf := sv_tx_buf s @ map (echo_of cx) acc\<rparr>,
                   rev (map Mbuf_Free (filter (Not \<circ> server_accepts d cx) ms)) @ t)
         else Inl (Out_Of_Bounds 64))"
proof (induction ms arbitrary: s t)
  case Nil
  then show ?case by (simp add: server_seen_def)
next
  case (Cons m ms)
  have step: "server_handle d cx now m (s, t) = server_packet d cx now m (s, t)"
    using assms(1) by (simp add: server_handle_def)
  show ?case
  proof (cases "server_accepts d cx m \<and> length (sv_tx_buf s) < 64")
    case True
    then show ?thesis
      using Cons.IH [of "(server_seen now 1 s)\<lparr>sv_tx_buf := sv_tx_buf s @ [echo_of cx m]\<rparr>" t]
      by (simp add: step server_packet_eq assms(2) server_seen_Suc [simplified] Let_def)
  next
    case False
    then show ?thesis
      using Cons.IH [of s] Cons.prems by (auto simp: step server_packet_eq assms(2) Let_def)
  qed
qed

section \<open>Sending the echoes\<close>

lemma shift_front_prefix:
  assumes "n \<le> m" and "m \<le> length xs"
  shows "let ys = fold (\<lambda>i ys. ys[i - n := ys ! i]) [n..<m] xs in
     length ys = length xs \<and> (\<forall>i < length xs. ys ! i = (if i < m - n then xs ! (i + n) else xs ! i))"
  using assms
proof (induction m)
  case (Suc m)
  then show ?case by (cases "n = Suc m") (auto simp: Let_def nth_list_update)
qed simp

lemma shift_front_drop: "n \<le> length xs \<Longrightarrow> take (length xs - n) (shift_front n xs) = drop n xs"
  using shift_front_prefix [of n "length xs" xs]
  by (intro nth_equalityI) (auto simp: Let_def shift_front_def add.commute)

lemma server_flush_Nil [simp]: "server_flush d port qid [] t = Some t"
  by (simp add: server_flush.simps)

lemma server_flush_step:
  assumes "tx_ok d" and "ms \<noteq> []"
  shows "server_flush d port qid ms t =
     (let n = rte_eth_tx_burst d t port qid ms
      in server_flush d port qid (drop n ms) (Tx_Burst port qid ms n # t))"
  using assms by (subst server_flush.simps) (simp add: trace_simps shift_front_drop tx_okD)

text \<open>Whatever the flush establishes, step by step.\<close>

lemma server_flush_invariant:
  assumes "tx_ok d" and "server_flush d port qid ms t = Some t'" and "P ms t"
    and step: "\<And>ms t n. n \<le> length ms \<Longrightarrow> P ms t \<Longrightarrow> P (drop n ms) (Tx_Burst port qid ms n # t)"
  shows "P [] t'"
proof -
  have "d = d \<longrightarrow> port = port \<longrightarrow> qid = qid \<longrightarrow> P ms t \<longrightarrow> P [] t'"
  proof (rule server_flush.raw_induct [OF _ assms(2), where P = "\<lambda>d' port' qid' ms t t'.
      d' = d \<longrightarrow> port' = port \<longrightarrow> qid' = qid \<longrightarrow> P ms t \<longrightarrow> P [] t'"], intro impI)
    fix f d' port' qid' ms t t'
    assume IH: "\<And>d' port' qid' ms t t'. f d' port' qid' ms t = Some t' \<Longrightarrow>
        d' = d \<longrightarrow> port' = port \<longrightarrow> qid' = qid \<longrightarrow> P ms t \<longrightarrow> P [] t'"
      and eq: "(if 0 < length ms
        then let (nb_tx, t) = tx_burst d' port' qid' ms t
             in f d' port' qid' (take (length ms - nb_tx) (shift_front nb_tx ms)) t
        else Some t) = Some t'"
      and same: "d' = d" "port' = port" "qid' = qid" and P: "P ms t"
    show "P [] t'"
    proof (cases "ms = []")
      case False
      let ?n = "rte_eth_tx_burst d t port qid ms"
      have n: "?n \<le> length ms" using assms(1) by (rule tx_okD)
      then have "f d port qid (drop ?n ms) (Tx_Burst port qid ms ?n # t) = Some t'"
        using eq same False by (simp add: trace_simps shift_front_drop split: if_splits)
      with IH step [OF n P] show ?thesis by blast
    qed (use eq P in simp)
  qed
  with assms(3) show ?thesis by simp
qed

lemma server_flush_transmits:
  assumes "tx_ok d" and "server_flush d port qid ms t = Some t'"
  shows "transmitted port qid t' = transmitted port qid t @ ms"
  using server_flush_invariant [where P = "\<lambda>ms' t'. transmitted port qid t' @ ms' = transmitted port qid t @ ms",
      OF assms] by simp

lemma server_flush_balance:
  assumes "tx_ok d" and "server_flush d port qid ms t = Some t'"
  shows "outstanding t' a = outstanding t a - held ms a"
proof -
  have "outstanding t' a - held [] a = outstanding t a - held ms a"
  proof (rule server_flush_invariant [where P = "\<lambda>ms' t'. outstanding t' a - held ms' a = outstanding t a - held ms a",
        OF assms])
    show "outstanding (Tx_Burst port qid ms' n # t1) a - held (drop n ms') a = outstanding t a - held ms a"
      if "outstanding t1 a - held ms' a = outstanding t a - held ms a" for ms' t1 n
      using that held_take_drop [of n ms' a] by simp
  qed simp
  then show ?thesis by simp
qed

text \<open>Refusals do not lose packets, and a fair device ends the loop.\<close>

lemma server_flush_refused:
  assumes "tx_ok d" and "ms \<noteq> []"
    and "\<forall>i < n. rte_eth_tx_burst d (replicate i (Tx_Burst port qid ms 0) @ t) port qid ms = 0"
  shows "server_flush d port qid ms t = server_flush d port qid ms (replicate n (Tx_Burst port qid ms 0) @ t)"
  using assms(3)
proof (induction n)
  case (Suc n)
  then have "server_flush d port qid ms (replicate n (Tx_Burst port qid ms 0) @ t) =
      server_flush d port qid ms (replicate (Suc n) (Tx_Burst port qid ms 0) @ t)"
    using server_flush_step [OF assms(1,2), of port qid "replicate n (Tx_Burst port qid ms 0) @ t"]
    by (simp add: Let_def)
  with Suc show ?case by simp
qed simp

lemma server_flush_ends:
  assumes "tx_ok d" and "tx_fair d port qid"
  shows "\<exists>t'. server_flush d port qid ms t = Some t'"
proof (induction "length ms" arbitrary: ms t rule: less_induct)
  case less
  show ?case
  proof (cases "ms = []")
    case False
    let ?r = "\<lambda>n. replicate n (Tx_Burst port qid ms 0) @ t"
    let ?takes = "\<lambda>n. 0 < rte_eth_tx_burst d (?r n) port qid ms"
    define n where "n = (LEAST n. ?takes n)"
    have "\<exists>n. ?takes n" using assms(2) False by (simp add: tx_fair_def)
    then have takes: "?takes n" and refused: "\<forall>i < n. rte_eth_tx_burst d (?r i) port qid ms = 0"
      unfolding n_def by (auto intro: LeastI_ex dest: not_less_Least)
    let ?k = "rte_eth_tx_burst d (?r n) port qid ms"
    have "length (drop ?k ms) < length ms" using takes False by simp
    from less [OF this, of "Tx_Burst port qid ms ?k # ?r n"]
    show ?thesis
      using server_flush_refused [OF assms(1) False refused] server_flush_step [OF assms(1) False, of port qid "?r n"]
      by (simp add: Let_def)
  qed simp
qed

section \<open>Accounting\<close>

lemma server_handle_unidir:
  "\<not> cx_bidi cx \<Longrightarrow> server_handle d cx now m (s, t) = Inr (s', t') \<Longrightarrow> sv_tx_buf s' = sv_tx_buf s"
  by (auto simp: server_handle_def server_packet_unidir split: if_splits sum.splits prod.splits)

lemma server_burst_balance:
  assumes "append_ok d" and "tx_ok d"
    and "server_burst d cx qid now ms s (Rx_Burst p q ms # t) = Some (Inr (s', t'))"
  shows "outstanding t' a = outstanding t a"
proof -
  let ?s0 = "s\<lparr>sv_sum_nb_rx := sv_sum_nb_rx s + int (length ms), sv_count_rx := sv_count_rx s + 1,
               sv_nb_pkts_process := 0, sv_tx_buf := []\<rparr>"
  obtain s1 t1 where fold: "fold_res (server_handle d cx now) ms (?s0, Rx_Burst p q ms # t) = Inr (s1, t1)"
    using assms(3) by (auto simp: server_burst_def Let_def split: sum.splits)
  note poll = rx_handler.poll_balance [OF server_rx_handler [OF assms(1,2)] fold, of a]
  show ?thesis
  proof (cases "cx_bidi cx")
    case True
    with assms(3) fold poll show ?thesis
      by (auto simp: server_burst_def trace_simps dest: server_flush_balance [OF assms(2), where a = a] split: option.splits)
  next
    case False
    have "sv_tx_buf (fst (s1, t1)) = []"
      by (rule fold_res_invariant [OF fold]) (use server_handle_unidir [OF False] in auto)
    with False assms(3) fold poll show ?thesis by (auto simp: server_burst_def Let_def)
  qed
qed

lemma server_iter_balance:
  assumes "append_ok d" and "tx_ok d" and "server_iter d cx s t = Some (Inr (run, s', t'))"
  shows "outstanding t' a = outstanding t a"
  using assms(3) server_burst_balance [OF assms(1,2), where a = a]
  by (fastforce simp: server_iter_def trace_simps split: if_splits option.splits sum.splits)

lemma server_loop_balance:
  assumes "append_ok d" and "tx_ok d" and "server_loop d cx running s t = Some (Inr (s', t'))"
  shows "outstanding t' a = outstanding t a"
  by (rule worker_loop_invariant [OF assms(3) [unfolded server_loop_def]])
    (simp_all add: server_iter_balance [OF assms(1,2)])

section \<open>Refinement\<close>

lemma echo_spec_invariant:
  assumes "(echo_step d cx)\<^sup>*\<^sup>* (rx, tx) (rx', tx')" and "\<And>q. tx q = map (echo_of cx) (filter (server_accepts d cx) (rx q))"
  shows "tx' q = map (echo_of cx) (filter (server_accepts d cx) (rx' q))"
proof -
  have "\<forall>q. snd y q = map (echo_of cx) (filter (server_accepts d cx) (fst y q))"
    if "(echo_step d cx)\<^sup>*\<^sup>* x y" "\<forall>q. snd x q = map (echo_of cx) (filter (server_accepts d cx) (fst x q))" for x y
    using that by (induction rule: rtranclp_induct) (auto elim!: echo_step.cases)
  from this [OF assms(1)] assms(2) show ?thesis by simp
qed

lemma traffic_append [simp]:
  "delivered port q (rev (map Mbuf_Free ms) @ t) = delivered port q t"
  "transmitted port q (rev (map Mbuf_Free ms) @ t) = transmitted port q t"
  by (induction ms arbitrary: t) simp_all

lemma server_flush_traffic:
  assumes "tx_ok d" and "server_flush d port qid ms t = Some t'"
  shows "delivered port q t' = delivered port q t"
    and "transmitted port q t' = transmitted port q t @ (if q = qid then ms else [])"
proof -
  show "delivered port q t' = delivered port q t"
    using server_flush_invariant [where P = "\<lambda>ms' t'. delivered port q t' = delivered port q t", OF assms] by simp
  have "transmitted port q t' = transmitted port q t" if "q \<noteq> qid"
    using server_flush_invariant [where P = "\<lambda>ms' t'. transmitted port q t' = transmitted port q t", OF assms] that by simp
  then show "transmitted port q t' = transmitted port q t @ (if q = qid then ms else [])"
    using server_flush_transmits [OF assms] by simp
qed

lemma server_burst_refines:
  assumes "tx_ok d" and "\<not> cx_do_arp cx" and "cx_bidi cx" and "port = ucast (cx_dpdk_port_id cx)"
    and "server_burst d cx qid now ms s (Rx_Burst port qid ms # t) = Some (Inr (s', t'))"
  shows "echo_step d cx (echo_abs port t) (echo_abs port t')"
proof -
  let ?acc = "filter (server_accepts d cx) ms"
  let ?t1 = "rev (map Mbuf_Free (filter (Not \<circ> server_accepts d cx) ms)) @ Rx_Burst port qid ms # t"
  obtain c where flush: "server_flush d port qid (map (echo_of cx) ?acc) (Timer_Read c # ?t1) = Some t'"
    using assms(3,5) server_burst_bidi [OF assms(2,3), of "s\<lparr>sv_sum_nb_rx := sv_sum_nb_rx s + int (length ms),
        sv_count_rx := sv_count_rx s + 1, sv_nb_pkts_process := 0, sv_tx_buf := []\<rparr>" d now ms "Rx_Burst port qid ms # t"]
    by (auto simp: server_burst_def trace_simps assms(4) split: if_splits option.splits)
  have "echo_abs port t' = ((\<lambda>q. delivered port q t)(qid := delivered port qid t @ ms),
      (\<lambda>q. transmitted port q t)(qid := transmitted port qid t @ map (echo_of cx) ?acc))"
    using server_flush_traffic [OF assms(1) flush] by (auto simp: echo_abs_def fun_eq_iff)
  then show ?thesis by (metis echo_abs_def echo_step.intros)
qed

lemma server_iter_refines:
  assumes "tx_ok d" and "\<not> cx_do_arp cx" and "cx_bidi cx" and "port = ucast (cx_dpdk_port_id cx)"
    and "server_iter d cx s t = Some (Inr (run, s', t'))"
  shows "(echo_step d cx)\<^sup>*\<^sup>* (echo_abs port t) (echo_abs port t')"
proof -
  let ?now = "rte_get_timer_cycles d t"
  have idle: "echo_abs port (Timer_Read c # t) = echo_abs port t" "echo_abs port (Rx_Burst port q [] # Timer_Read c # t) = echo_abs port t"
    for c q by (simp_all add: echo_abs_def fun_eq_iff)
  consider "t' = Timer_Read ?now # t" | q where "t' = Rx_Burst port q [] # Timer_Read ?now # t"
    | q now ms s1 where "server_burst d cx q now ms s1 (Rx_Burst port q ms # Timer_Read ?now # t) = Some (Inr (s', t'))"
    using assms(5) by (auto simp: server_iter_def trace_simps assms(4) split: if_splits option.splits sum.splits)
  then show ?thesis
  proof cases
    case (3 q now ms s1)
    from server_burst_refines [OF assms(1-4) this] show ?thesis unfolding idle by blast
  qed (simp_all add: idle)
qed

section \<open>Safety\<close>

lemma check_eth_hdr_total:
  assumes "append_ok d" and "arp_room d pool"
  shows "\<exists>v t'. check_eth_hdr d my_ip host_mac buf pool cdq t = Inr (v, t')"
proof -
  have "\<exists>t'. send_arp d op src mac dst pool cdq t = Inr t'" for op src mac dst
  proof (cases "rte_pktmbuf_alloc d t pool")
    case None
    then show ?thesis by (simp add: send_arp_def trace_simps)
  next
    case (Some m)
    with assms(2) have "data_len m = 0" "42 \<le> data_room d (buf_addr m)" by (auto simp: arp_room_def)
    with send_arp_sends [OF assms(1) Some] show ?thesis by blast
  qed
  then obtain t1 where "send_arp d RTE_ARP_OP_REPLY my_ip (ld_mac (pkt buf) (ETHER_HDR_LEN + ARP_SHA))
      (rte_be_to_cpu_32 d (ld32 (pkt buf) (ETHER_HDR_LEN + ARP_SIP))) pool cdq t = Inr t1" by blast
  then show ?thesis unfolding check_eth_hdr_def Let_def by (auto split: if_splits)
qed

lemma server_handle_ok:
  assumes "append_ok d" and "arp_room d (cx_tx_mem_pool cx)" and "length (sv_tx_buf s) < 64"
  shows "\<exists>s' t'. server_handle d cx now m (s, t) = Inr (s', t') \<and> length (sv_tx_buf s') \<le> Suc (length (sv_tx_buf s)) \<and>
     sv_queue_status s' = sv_queue_status s \<and> sv_q_index s' = sv_q_index s"
proof -
  have packet: "\<exists>s' t'. server_packet d cx now m (s, t) = Inr (s', t') \<and> length (sv_tx_buf s') \<le> Suc (length (sv_tx_buf s)) \<and>
     sv_queue_status s' = sv_queue_status s \<and> sv_q_index s' = sv_q_index s" for t
    using assms(3) by (cases "cx_bidi cx") (auto simp: server_packet_eq server_packet_unidir server_seen_def)
  obtain v t1 where "check_eth_hdr d (cx_src_ip cx) (cx_my_eth cx) m (cx_tx_mem_pool cx) 0 t = Inr (v, t1)"
    using check_eth_hdr_total [OF assms(1,2)] by blast
  then show ?thesis
    using packet [of t] packet [of t1] by (auto simp: server_handle_def)
qed

lemma server_fold_ok:
  assumes "append_ok d" and "arp_room d (cx_tx_mem_pool cx)"
  shows "length (sv_tx_buf s) + length ms \<le> 64 \<Longrightarrow>
     \<exists>s' t'. fold_res (server_handle d cx now) ms (s, t) = Inr (s', t') \<and>
       sv_queue_status s' = sv_queue_status s \<and> sv_q_index s' = sv_q_index s"
proof (induction ms arbitrary: s t)
  case (Cons m ms)
  then have "length (sv_tx_buf s) < 64" by simp
  from server_handle_ok [OF assms this] obtain s1 t1 where
    s1: "server_handle d cx now m (s, t) = Inr (s1, t1)" "length (sv_tx_buf s1) \<le> Suc (length (sv_tx_buf s))"
      "sv_queue_status s1 = sv_queue_status s" "sv_q_index s1 = sv_q_index s" by blast
  with Cons.prems Cons.IH [of s1 t1] show ?case by auto
qed simp

lemma server_burst_ok:
  assumes "append_ok d" and "arp_room d (cx_tx_mem_pool cx)" and "tx_ok d"
    and "tx_fair d (ucast (cx_dpdk_port_id cx)) qid" and "length ms \<le> 64"
  shows "\<exists>s' t'. server_burst d cx qid now ms s t = Some (Inr (s', t')) \<and>
     length (sv_queue_status s') = length (sv_queue_status s) \<and> sv_q_index s' = sv_q_index s"
proof -
  let ?s0 = "s\<lparr>sv_sum_nb_rx := sv_sum_nb_rx s + int (length ms), sv_count_rx := sv_count_rx s + 1,
               sv_nb_pkts_process := 0, sv_tx_buf := []\<rparr>"
  obtain s1 t1 where fold: "fold_res (server_handle d cx now) ms (?s0, t) = Inr (s1, t1)"
    and same: "sv_queue_status s1 = sv_queue_status s" "sv_q_index s1 = sv_q_index s"
    using server_fold_ok [OF assms(1,2), of ?s0 ms now t] assms(5) by auto
  show ?thesis
    using same server_flush_ends [OF assms(3,4), of "sv_tx_buf s1" "Timer_Read (rte_get_timer_cycles d t1) # t1"]
    by (auto simp: server_burst_def fold [simplified] trace_simps)
qed

section \<open>One round\<close>

lemma queue_bound:
  assumes "queues_ok cx" and "server_inv cx s"
  shows "unat (sv_q_index s) < length (cx_managed_queues cx)"
    and "unat (ucast (cx_managed_queues cx ! unat (sv_q_index s)) :: u16) < length (sv_queue_status s)"
  using assms by (auto simp: queues_ok_def server_inv_def list_all_length)

lemma server_stats_keeps [simp]:
  "sv_queue_status (server_stats d now s) = sv_queue_status s"
  "sv_q_index (server_stats d now s) = sv_q_index s"
  "sv_first_pkt (server_stats d now s) = sv_first_pkt s"
  "sv_last_pkt_time (server_stats d now s) = sv_last_pkt_time s"
  by (simp_all add: server_stats_def)

lemma next_queue_bound: "0 < n \<Longrightarrow> unat ((q + 1) mod n :: u32) < unat n"
  by (simp add: unat_mod word_gt_0 unat_gt_0)

section \<open>Properties\<close>

text \<open>C33. The echo of a packet is a permutation of its bytes: MAC addresses, IP addresses and ports
  change places, every other byte, so the payload too, stays, and echoing twice gives the
  packet back.\<close>

theorem echo_swap_correct:
  "ld_mac (echo_swap (server_ip_offset cx) f) ETH_DST = ld_mac f ETH_SRC \<and>
   ld_mac (echo_swap (server_ip_offset cx) f) ETH_SRC = ld_mac f ETH_DST \<and>
   ld32 (echo_swap (server_ip_offset cx) f) (server_ip_offset cx + IP_DST) = ld32 f (server_ip_offset cx + IP_SRC) \<and>
   ld32 (echo_swap (server_ip_offset cx) f) (server_ip_offset cx + IP_SRC) = ld32 f (server_ip_offset cx + IP_DST) \<and>
   ld16 (echo_swap (server_ip_offset cx) f) (server_ip_offset cx + 20 + UDP_DST) = ld16 f (server_ip_offset cx + 20 + UDP_SRC) \<and>
   ld16 (echo_swap (server_ip_offset cx) f) (server_ip_offset cx + 20 + UDP_SRC) = ld16 f (server_ip_offset cx + 20 + UDP_DST) \<and>
   (\<forall>i. echo_swap (server_ip_offset cx) f i = f (echo_index (server_ip_offset cx) i)) \<and>
   echo_swap (server_ip_offset cx) (echo_swap (server_ip_offset cx) f) = f"
proof (intro conjI allI)
  show "echo_swap (server_ip_offset cx) (echo_swap (server_ip_offset cx) f) = f"
    by (rule ext) (simp add: echo_swap_bytes echo_index_involution)
qed (auto simp: echo_swap_bytes, auto simp: echo_swap_def server_ip_offset_def Let_def cell_simps)

text \<open>C1. What a burst does without ARP handling, exactly: the packets for this server, and only they,
  are echoed in the order of arrival and counted, all others are freed; more than 64 of them
  overflow the array of echoes.\<close>

theorem server_burst_echoes:
  assumes "\<not> cx_do_arp cx" and "cx_bidi cx" and "sv_tx_buf s = []"
  shows "fold_res (server_handle d cx now) ms (s, t) =
     (let acc = filter (server_accepts d cx) ms
      in if length acc \<le> 64
         then Inr ((server_seen now (length acc) s)\<lparr>sv_tx_buf := map (echo_of cx) acc\<rparr>,
                   rev (map Mbuf_Free (filter (Not \<circ> server_accepts d cx) ms)) @ t)
         else Inl (Out_Of_Bounds 64))"
  using server_burst_bidi [OF assms(1,2), of s] assms(3) by (simp add: Let_def)

text \<open>C17. The echoes are sent completely and in order: when the loop ends, the device has taken exactly
  the given packets, and it ends on every device that does not refuse packets for ever.\<close>

theorem server_flush_complete:
  assumes "tx_ok d" and "tx_fair d port qid"
  shows "\<exists>t'. server_flush d port qid ms t = Some t' \<and>
     transmitted port qid t' = transmitted port qid t @ ms \<and> outstanding t' a = outstanding t a - held ms a"
  using server_flush_ends [OF assms] server_flush_transmits [OF assms(1)] server_flush_balance [OF assms(1)] by blast

text \<open>C5. A server that returns has freed or sent every buffer it received or allocated, exactly
  once.\<close>

theorem do_server_balance:
  assumes "append_ok d" and "tx_ok d" and "do_server d cx running t = Some (Inr (cx', s', t'))"
  shows "outstanding t' a = outstanding t a"
  using assms(3) server_loop_balance [OF assms(1,2), where a = a]
  by (fastforce simp: do_server_def trace_simps split: option.splits sum.splits)

text \<open>C18. A round of the loop succeeds and keeps the invariant, so it can be repeated, if the worker's
  queues are the first \<open>count_queues\<close> queues and bursts have at most 64 packets.\<close>

theorem server_iter_safe:
  assumes "append_ok d" and "arp_room d (cx_tx_mem_pool cx)" and "tx_ok d"
    and "\<forall>qid. tx_fair d (ucast (cx_dpdk_port_id cx)) qid"
    and "\<forall>t port qid. length (rte_eth_rx_burst d t port qid 1024) \<le> 64"
    and "queues_ok cx" and "server_inv cx s"
  shows "\<exists>run s' t'. server_iter d cx s t = Some (Inr (run, s', t')) \<and> server_inv cx s' \<and>
     sv_q_index s' = (sv_q_index s + 1) mod cx_count_queues cx"
proof -
  let ?q = "ucast (cx_managed_queues cx ! unat (sv_q_index s)) :: u16"
  let ?now = "rte_get_timer_cycles d t" and ?i = "(sv_q_index s + 1) mod cx_count_queues cx"
  let ?s1 = "server_stats d ?now (s\<lparr>sv_q_index := ?i\<rparr>)"
  let ?ms = "rte_eth_rx_burst d (Timer_Read ?now # t) (ucast (cx_dpdk_port_id cx)) ?q 1024"
  let ?t = "Rx_Burst (ucast (cx_dpdk_port_id cx)) ?q ?ms # Timer_Read ?now # t"
  note q = queue_bound [OF assms(6,7)]
  have n: "0 < cx_count_queues cx" using assms(6) by (simp add: queues_ok_def)
  note idx = next_queue_bound [OF n, of "sv_q_index s"]
  obtain s' t' where burst: "server_burst d cx ?q ?now ?ms ?s1 ?t = Some (Inr (s', t'))"
    "length (sv_queue_status s') = length (sv_queue_status s)" "sv_q_index s' = ?i"
    using server_burst_ok [OF assms(1-3), of ?q ?ms ?now ?s1 ?t] assms(4,5) by auto
  show ?thesis
    using q n idx burst assms(7)
    by (simp add: server_iter_def trace_simps server_inv_def word_gt_0) blast
qed

text \<open>A worker whose queue number is not below its number of queues reads outside
  \<open>queue_status\<close> in its very first round (unless the start-up timeout has passed): the array
  has one entry per managed queue but is indexed by the global queue number.\<close>

lemma server_iter_queue_oob:
  assumes "unat (sv_q_index s) < length (cx_managed_queues cx)" and "0 < cx_count_queues cx"
    and "length (sv_queue_status s) \<le> unat (ucast (cx_managed_queues cx ! unat (sv_q_index s)) :: u16)"
    and "rte_get_timer_cycles d t - sv_exp_begin s \<le> 60 * rte_get_timer_hz d"
  shows "server_iter d cx s t =
     Some (Inl (Out_Of_Bounds (unat (ucast (cx_managed_queues cx ! unat (sv_q_index s)) :: u16))))"
  using assms by (simp add: server_iter_def trace_simps word_gt_0 not_less)

text \<open>C8. The server refines the abstract echo service: for a context with \<open>bidi\<close> set and \<open>do_arp\<close> not set
  (with \<open>do_arp\<close> the server also sends ARP replies, without \<open>bidi\<close> it echoes nothing), seen from
  outside, a run of \<open>do_server\<close> is a run of that service. In particular, when it returns, what it has sent to
  each queue is exactly the echoes of the packets for this server that it received from this
  queue, in the order of arrival.\<close>

theorem do_server_refines_echo:
  assumes "tx_ok d" and "\<not> cx_do_arp cx" and "cx_bidi cx" and "port = ucast (cx_dpdk_port_id cx)"
    and "do_server d cx running [] = Some (Inr (cx', s', t'))"
  shows "(echo_step d cx)\<^sup>*\<^sup>* (\<lambda>_. [], \<lambda>_. []) (echo_abs port t') \<and>
     (\<forall>q. transmitted port q t' = map (echo_of cx) (filter (server_accepts d cx) (delivered port q t')))"
proof -
  let ?t0 = "[Timer_Read (rte_get_timer_cycles d [])]"
  obtain s0 where loop: "worker_loop (server_iter d cx) running s0 ?t0 = Some (Inr (s', t'))"
    using assms(5) by (auto simp: do_server_def server_loop_def trace_simps split: option.splits sum.splits)
  have start: "echo_abs port ?t0 = (\<lambda>_. [], \<lambda>_. [])" by (simp add: echo_abs_def)
  have run: "(echo_step d cx)\<^sup>*\<^sup>* (\<lambda>_. [], \<lambda>_. []) (echo_abs port t')"
    by (rule worker_loop_invariant [OF loop, where P = "\<lambda>s t. (echo_step d cx)\<^sup>*\<^sup>* (\<lambda>_. [], \<lambda>_. []) (echo_abs port t)"])
      (auto simp: start dest: server_iter_refines [OF assms(1-4)] intro: rtranclp_trans)
  then show ?thesis using echo_spec_invariant [OF run [unfolded echo_abs_def]] by auto
qed

text \<open>C36. When the loop stops by itself: before the first packet, exactly when more than 60 seconds have
  passed since the start; afterwards, exactly when a ready queue is empty and more than 2
  seconds have passed since the last packet for this server.\<close>

theorem server_iter_stops:
  assumes "queues_ok cx" and "server_inv cx s"
    and "now = rte_get_timer_cycles d t" and "hz = rte_get_timer_hz d"
    and "qid = ucast (cx_managed_queues cx ! unat (sv_q_index s))"
  shows "(\<exists>s' t'. server_iter d cx s t = Some (Inr (False, s', t'))) \<longleftrightarrow>
     (if sv_first_pkt s
      then sv_queue_status s ! unat qid \<le> now \<and>
           rte_eth_rx_burst d (Timer_Read now # t) (ucast (cx_dpdk_port_id cx)) qid 1024 = [] \<and>
           2 * hz < now - sv_last_pkt_time s
      else 60 * hz < now - sv_exp_begin s)"
proof -
  note q = queue_bound [OF assms(1,2)]
  have n: "cx_count_queues cx \<noteq> 0" using assms(1) by (simp add: queues_ok_def word_gt_0)
  show ?thesis
    using q n unfolding assms(3-5)
    by (auto simp: server_iter_def trace_simps not_less not_le split: if_splits option.splits sum.splits)
qed

section \<open>Examples\<close>

lemma server_sim_ok: "append_ok server_sim" "tx_ok server_sim" "rte_get_timer_hz server_sim = 1000"
  "rte_get_timer_cycles server_sim t = of_nat (10000 * length t)"
  "rte_be_to_cpu_16 server_sim = bswap16" "rte_be_to_cpu_32 server_sim = bswap32"
  "rte_eth_rx_burst server_sim t port q n = take n (if length t = 2 then [request_to 7 0xC0A80102] else [])"
  "rte_eth_tx_burst server_sim t port q ms = min 1 (length ms)"
  by (simp_all add: server_sim_def) (simp_all add: sim_def)

lemma server_sim_fair: "tx_fair server_sim port qid"
  by (auto simp: tx_fair_def server_sim_ok intro: exI [of _ 0])

lemma server_sim_room: "arp_room server_sim pool"
  by (simp add: arp_room_def server_sim_def sim_def empty_mbuf_def)

lemma server_cx_ok: "queues_ok (server_cx 0)" "server_inv (server_cx 0) server_start"
  by (simp_all add: queues_ok_def server_cx_def server_inv_def server_start_def)

lemma request_accepted: "server_accepts server_sim (server_cx q) (request_to a ip) \<longleftrightarrow> ip = 0xC0A80102"
  by (simp add: server_accepts_def server_cx_def server_ip_offset_def request_to_def server_sim_ok cell_simps)

theorem server_burst_echoes_witness:
  "\<exists>s'. fold_res (server_handle server_sim (server_cx 0) 5) [request_to 1 0xC0A80102, request_to 2 0] (server_start, []) =
      Inr (s', [Mbuf_Free (request_to 2 0)]) \<and>
     sv_tx_buf s' = [echo_of (server_cx 0) (request_to 1 0xC0A80102)] \<and> sv_throughput s' = 1"
  using server_burst_echoes [of "server_cx 0" server_start server_sim 5 "[request_to 1 0xC0A80102, request_to 2 0]" "[]"]
  by (simp add: request_accepted) (simp add: server_cx_def server_start_def server_seen_def)

theorem server_flush_complete_witness:
  "\<exists>t'. server_flush server_sim 0 0 [request_to 1 0, request_to 2 0] [] = Some t' \<and>
     transmitted 0 0 t' = [request_to 1 0, request_to 2 0]"
  using server_flush_complete [OF server_sim_ok(2) server_sim_fair, of 0 0 "[request_to 1 0, request_to 2 0]" "[]"]
  by auto

theorem server_iter_safe_witness:
  "\<exists>run s' t'. server_iter server_sim (server_cx 0) server_start [Timer_Read 0] = Some (Inr (run, s', t')) \<and>
     server_inv (server_cx 0) s' \<and> sv_q_index s' = 0"
proof -
  have "\<forall>t port qid. length (rte_eth_rx_burst server_sim t port qid 1024) \<le> 64" by (simp add: server_sim_ok)
  moreover have "\<forall>qid. tx_fair server_sim (ucast (cx_dpdk_port_id (server_cx 0))) qid" by (simp add: server_sim_fair)
  ultimately have "\<exists>run s' t'. server_iter server_sim (server_cx 0) server_start [Timer_Read 0] = Some (Inr (run, s', t')) \<and>
      server_inv (server_cx 0) s' \<and> sv_q_index s' = (sv_q_index server_start + 1) mod cx_count_queues (server_cx 0)"
    by (intro server_iter_safe server_sim_ok server_sim_room server_cx_ok) auto
  then show ?thesis by (simp add: server_start_def server_cx_def)
qed

theorem server_iter_stops_witness:
  "\<exists>s' t'. server_iter server_sim (server_cx 0) server_start (replicate 7 (Timer_Read 0)) = Some (Inr (False, s', t'))"
  using server_iter_stops [OF server_cx_ok refl refl refl, of server_sim "replicate 7 (Timer_Read 0)"]
  by (simp add: server_sim_ok server_start_def)

lemma server_cx_sel: "cx_bidi (server_cx q)" "\<not> cx_do_arp (server_cx q)" "cx_count_queues (server_cx q) = 1"
  "cx_managed_queues (server_cx q) = [q]" "cx_dpdk_port_id (server_cx q) = 0" "cx_delay_cycles (server_cx q) = 0"
  by (simp_all add: server_cx_def)

lemma server_example_run:
  "\<exists>s' t'. do_server server_sim (server_cx 0) (\<lambda>_. True) [] = Some (Inr ((server_cx 0)\<lparr>cx_running := False\<rparr>, s', t')) \<and>
     transmitted 0 0 t' = [echo_of (server_cx 0) (request_to 7 0xC0A80102)]"
proof -
  let ?m = "request_to 7 0xC0A80102" and ?cx = "server_cx 0"
  let ?t1 = "[Rx_Burst 0 0 [?m], Timer_Read 10000, Timer_Read 0]"
  let ?t2 = "Tx_Burst 0 0 [echo_of ?cx ?m] 1 # Timer_Read 30000 # ?t1"
  let ?s1 = "(server_seen 10000 1 (server_start\<lparr>sv_start_time := 10000, sv_sum_nb_rx := 1, sv_count_rx := 1\<rparr>))
     \<lparr>sv_queue_status := [30000]\<rparr>"
  have handle: "server_handle server_sim ?cx now ?m (s, t) =
     Inr ((server_seen now 1 s)\<lparr>sv_tx_buf := [echo_of ?cx ?m]\<rparr>, t)" if "sv_tx_buf s = []" for now s t
    using that server_packet_eq [of ?cx server_sim now ?m s t]
    by (simp add: request_accepted) (simp add: server_handle_def server_cx_def)
  have flush: "server_flush server_sim 0 0 [echo_of ?cx ?m] t = Some (Tx_Burst 0 0 [echo_of ?cx ?m] 1 # t)" for t
    using server_flush_step [OF server_sim_ok(2), of "[echo_of ?cx ?m]" 0 0 t] by (simp add: server_sim_ok)
  have first: "server_iter server_sim ?cx server_start [Timer_Read 0] = Some (Inr (True, ?s1, ?t2))"
    by (simp add: server_iter_def server_burst_def trace_simps server_sim_ok server_stats_def handle
        server_cx_sel server_start_def flush server_seen_def)
  obtain s2 where last: "server_iter server_sim ?cx ?s1 ?t2 =
      Some (Inr (False, s2, Rx_Burst 0 0 [] # Timer_Read 50000 # ?t2))"
    by (simp add: server_iter_def trace_simps server_sim_ok server_stats_def server_cx_sel
        server_start_def server_seen_def)
  have "server_loop server_sim ?cx (\<lambda>_. True) server_start [Timer_Read 0] =
      server_loop server_sim ?cx (\<lambda>_. True) ?s1 ?t2"
    unfolding server_loop_def by (subst worker_loop.simps) (simp add: first del: One_nat_def)
  also have "\<dots> = Some (Inr (s2, Rx_Burst 0 0 [] # Timer_Read 50000 # ?t2))"
    unfolding server_loop_def by (subst worker_loop.simps) (simp add: last del: One_nat_def)
  finally show ?thesis
    by (simp add: do_server_def trace_simps server_sim_ok server_cx_sel server_start_def)
qed

theorem do_server_balance_witness:
  "\<exists>cx' s' t'. do_server server_sim (server_cx 0) (\<lambda>_. True) [] = Some (Inr (cx', s', t')) \<and> outstanding t' 7 = 0"
  using server_example_run do_server_balance [OF server_sim_ok(1,2), of "server_cx 0" "\<lambda>_. True" "[]", where a = 7]
  by fastforce

theorem do_server_refines_echo_witness:
  "\<exists>cx' s' t'. do_server server_sim (server_cx 0) (\<lambda>_. True) [] = Some (Inr (cx', s', t')) \<and>
     map (echo_of (server_cx 0)) (filter (server_accepts server_sim (server_cx 0)) (delivered 0 0 t')) =
       [echo_of (server_cx 0) (request_to 7 0xC0A80102)]"
proof -
  obtain s' t' where run: "do_server server_sim (server_cx 0) (\<lambda>_. True) [] = Some (Inr ((server_cx 0)\<lparr>cx_running := False\<rparr>, s', t'))"
    "transmitted 0 0 t' = [echo_of (server_cx 0) (request_to 7 0xC0A80102)]"
    using server_example_run by blast
  have "0 = (ucast (cx_dpdk_port_id (server_cx 0)) :: u16)" by (simp add: server_cx_sel)
  from do_server_refines_echo [OF server_sim_ok(2) server_cx_sel(2,1) this run(1)] run show ?thesis by metis
qed

end
