(* ===== verification/Latency_Client.thy ===== *)
theory Latency_Client
  imports Config Packet
begin

text \<open>
  The latency client, \<open>do_latency_client\<close> of \<open>latency_client.c\<close>: it sends a burst of timestamped
  packets, waits until all of them have come back or a second has passed, and stores one latency
  per packet. The code's nested loops with their \<open>goto recv\<close> are separate definitions: building
  one packet, waiting for packets, handling one, receiving until the burst is complete, one round
  of the main loop, the main loop. The static flag \<open>running\<close> is cleared by a signal handler: it is
  an argument, a function of the trace. \<open>report_measurements\<close> prints the list of latencies that
  \<open>do_latency_client\<close> returns here; the array of measurements is taken to be allocated.
\<close>

section \<open>Model\<close>

abbreviation (input) "LATENCY_BURST_SIZE \<equiv> 64 :: nat"
abbreviation (input) "max_measure_size \<equiv> 1000000000 :: nat"

text \<open>The two static flags and the signal handler.\<close>

record latency_flags =
  in_the_loop :: bool
  lc_running :: bool

definition handle_int :: "latency_flags \<Rightarrow> latency_flags res" where
  "handle_int fl =
     (let fl = fl\<lparr>lc_running := False\<rparr>
      in if \<not> in_the_loop fl then Inl (Rte_Exit EXIT_FAILURE ''Interrupted!'') else Inr fl)"

text \<open>\<open>lc_measurements\<close> is \<open>measurements[0..m_index)\<close>.\<close>

record latency_state =
  lc_nb_tx :: u32
  lc_measurements :: "u64 list"

subsection \<open>Building a packet\<close>

text \<open>One packet of the burst, added to those built before. Lengths are computed in wider types and
  truncated to 16 bits. The number of bytes \<open>memset\<close> fills is computed in \<open>size_t\<close>: it wraps for
  payloads shorter than eight bytes. Filling past the end of the buffer is an error.\<close>

definition latency_build ::
  "dpdk \<Rightarrow> cntx \<Rightarrow> ether_addr \<Rightarrow> mbuf \<Rightarrow> mbuf list \<times> trace \<Rightarrow> (mbuf list \<times> trace) res" where
  "latency_build d cx server_eth buf st =
     (let (bufs, t) = st;
          payload_length = (word_of_int (cx_payload_length cx) :: u32)
      in on_append d buf (of_nat ETHER_HDR_LEN) (\<lambda>eth buf.
         let f = st_mac (pkt buf) (eth + ETH_SRC) (cx_my_eth cx);
             f = st_mac f (eth + ETH_DST) server_eth;
             f = st16 f (eth + ETH_TYPE) (rte_cpu_to_be_16 d RTE_ETHER_TYPE_IPV4)
         in on_append d (buf\<lparr>pkt := f\<rparr>) (of_nat IPV4_HDR_LEN) (\<lambda>ip buf.
         let f = st8 (pkt buf) (ip + IP_VERSION_IHL) 0x45;
             f = st8 f (ip + IP_TOS) 0;
             f = st16 f (ip + IP_TOTAL_LENGTH) (rte_cpu_to_be_16 d (ucast (20 + 8 + payload_length)));
             f = st16 f (ip + IP_PACKET_ID) 0;
             f = st16 f (ip + IP_FRAGMENT_OFFSET) 0;
             f = st8 f (ip + IP_TTL) 64;
             f = st8 f (ip + IP_PROTO) IPPROTO_UDP;
             f = st16 f (ip + IP_CKSUM) 0;
             f = st32 f (ip + IP_SRC) (rte_cpu_to_be_32 d (cx_src_ip cx));
             f = st32 f (ip + IP_DST) (rte_cpu_to_be_32 d (cx_dst_ips cx ! 0))
         in on_append d (buf\<lparr>pkt := f\<rparr>) (ucast (8 + payload_length)) (\<lambda>udp buf.
         let f = st16 (pkt buf) (udp + UDP_SRC) (rte_cpu_to_be_16 d (cx_src_port cx));
             f = st16 f (udp + UDP_DST) (rte_cpu_to_be_16 d (cx_dst_port cx));
             f = st16 f (udp + UDP_LEN) (rte_cpu_to_be_16 d (ucast (8 + payload_length)));
             f = st16 f (udp + UDP_CKSUM) 0;
             (timestamp, t) = timer_cycles d t;
             f = st64 f (udp + UDP_HDR_LEN) timestamp;
             n = unat ((ucast payload_length :: u64) - 8)
         in if data_room d (buf_addr buf) < udp + UDP_HDR_LEN + 8 + n
            then Inl (Out_Of_Bounds (udp + UDP_HDR_LEN + 8 + n))
            else
              let f = st_fill f (udp + UDP_HDR_LEN + 8) 0xAB n;
                  f = st16 f (ip + IP_CKSUM) (rte_ipv4_cksum d f ip);
                  f = st16 f (udp + UDP_CKSUM) (rte_ipv4_udptcp_cksum d f ip udp)
              in Inr (bufs @ [buf\<lparr>pkt := f, l2_len := ETHER_HDR_LEN, l3_len := IPV4_HDR_LEN,
                                  ol_flags := {F_TX_IP_CKSUM, F_TX_IPV4, F_TX_UDP_CKSUM}\<rparr>], t)))))"

subsection \<open>Receiving\<close>

text \<open>The inner loop: poll until there are packets or a second has passed since \<open>start\<close>. The first
  result is \<open>pkt_lost\<close>.\<close>

partial_function (option) latency_wait ::
  "dpdk \<Rightarrow> u16 \<Rightarrow> u16 \<Rightarrow> (trace \<Rightarrow> bool) \<Rightarrow> u64 \<Rightarrow> trace \<Rightarrow> (bool \<times> mbuf list \<times> trace) option" where
  "latency_wait d port qid running start t =
     (if running t
      then let (bufs, t) = rx_burst d port qid LATENCY_BURST_SIZE t;
               (now, t) = timer_cycles d t
           in if now - start > rte_get_timer_hz d then Some (True, bufs, t)
              else if bufs \<noteq> [] then Some (False, bufs, t)
              else latency_wait d port qid running start t
      else Some (False, [], t))"

text \<open>One received packet. The measurement is stored at an index below the size of the array, because
  the assertion held before.\<close>

definition latency_packet ::
  "dpdk \<Rightarrow> cntx \<Rightarrow> u16 \<Rightarrow> u64 \<Rightarrow> mbuf \<Rightarrow> latency_state \<times> trace \<Rightarrow> (latency_state \<times> trace) res" where
  "latency_packet d cx hdr_size_delta resp_recv_time buf st =
     (let (s, t) = st
      in case check_eth_hdr d (cx_src_ip cx) (cx_my_eth cx) buf (cx_tx_mem_pool cx) 0 t of
           Inl e \<Rightarrow> Inl e
         | Inr (valid_pkt, t) \<Rightarrow>
             if \<not> valid_pkt then Inr (s, pktmbuf_free buf t)
             else
               let s = s\<lparr>lc_nb_tx := lc_nb_tx s - 1\<rparr>
               in if rte_be_to_cpu_16 d (ld16 (pkt buf) ETH_TYPE) \<noteq> RTE_ETHER_TYPE_IPV4
                  then Inr (s, pktmbuf_free buf t)
                  else
                    let timestamp = ld64 (pkt buf) (ETHER_HDR_LEN + IPV4_HDR_LEN + UDP_HDR_LEN + unat hdr_size_delta)
                    in if rte_get_timer_hz d = 0 then Inl Div_By_Zero
                       else
                         let latency = (resp_recv_time - timestamp) * 1000 * 1000 * 1000 div rte_get_timer_hz d;
                             t = pktmbuf_free buf t;
                             s = s\<lparr>lc_measurements := lc_measurements s @ [latency]\<rparr>
                         in if length (lc_measurements s) < max_measure_size then Inr (s, t) else Inl Assert_Failed)"

text \<open>From the label \<open>recv\<close> to the jump back to it. The first result tells whether packets were
  lost, in which case the rest of the round is skipped.\<close>

partial_function (option) latency_recv ::
  "dpdk \<Rightarrow> cntx \<Rightarrow> u16 \<Rightarrow> (trace \<Rightarrow> bool) \<Rightarrow> latency_state \<Rightarrow> trace \<Rightarrow> (bool \<times> latency_state \<times> trace) res option" where
  "latency_recv d cx hdr_size_delta running s t =
     (let (start_since_sent, t) = timer_cycles d t
      in case latency_wait d (ucast (cx_dpdk_port_id cx)) (cx_default_qid cx) running start_since_sent t of
           None \<Rightarrow> None
         | Some (pkt_lost, bufs, t) \<Rightarrow>
             if pkt_lost then Some (Inr (True, s, t))
             else
               let (resp_recv_time, t) = timer_cycles d t
               in case fold_res (latency_packet d cx hdr_size_delta resp_recv_time) bufs (s, t) of
                    Inl e \<Rightarrow> Some (Inl e)
                  | Inr (s, t) \<Rightarrow>
                      if lc_nb_tx s > 0 \<and> running t then latency_recv d cx hdr_size_delta running s t
                      else Some (Inr (False, s, t)))"

subsection \<open>The main loop\<close>

definition latency_iter ::
  "dpdk \<Rightarrow> app_config \<Rightarrow> cntx \<Rightarrow> ether_addr \<Rightarrow> (trace \<Rightarrow> bool) \<Rightarrow> latency_state \<Rightarrow> trace \<Rightarrow>
     (bool \<times> latency_state \<times> trace) res option" where
  "latency_iter d cfg cx server_eth running s t =
     (case pktmbuf_alloc_bulk d (cx_tx_mem_pool cx) (unat (cx_batch cx)) t of
        (None, t) \<Rightarrow> Some (Inr (True, s, t))
      | (Some bufs, t) \<Rightarrow>
          (case fold_res (latency_build d cx server_eth) bufs ([], t) of
             Inl e \<Rightarrow> Some (Inl e)
           | Inr (bufs, t) \<Rightarrow>
               let (nb_tx, t) = tx_burst d (ucast (cx_dpdk_port_id cx)) (cx_default_qid cx) bufs t
               in case latency_recv d cx (cf_hdr_encp_sz cfg) running (s\<lparr>lc_nb_tx := of_nat nb_tx\<rparr>) t of
                    None \<Rightarrow> None
                  | Some (Inl e) \<Rightarrow> Some (Inl e)
                  | Some (Inr (pkt_lost, s, t)) \<Rightarrow>
                      if \<not> pkt_lost \<and> cf_delay_cycles cfg > 0
                      then (case apply_delay_cycles d (cf_delay_cycles cfg) 1 t of
                              None \<Rightarrow> None
                            | Some t \<Rightarrow> Some (Inr (True, s, t)))
                      else Some (Inr (True, s, t))))"

definition latency_loop ::
  "dpdk \<Rightarrow> app_config \<Rightarrow> cntx \<Rightarrow> ether_addr \<Rightarrow> (trace \<Rightarrow> bool) \<Rightarrow> latency_state \<Rightarrow> trace \<Rightarrow>
     (latency_state \<times> trace) res option" where
  "latency_loop d cfg cx server_eth running = worker_loop (latency_iter d cfg cx server_eth running) running"

text \<open>The result is the return value with the measurements that are printed.\<close>

definition do_latency_client ::
  "dpdk \<Rightarrow> app_config \<Rightarrow> cntx \<Rightarrow> (trace \<Rightarrow> bool) \<Rightarrow> trace \<Rightarrow> (int \<times> u64 list \<times> trace) res option" where
  "do_latency_client d cfg cx running t =
     (if cx_count_dst_ip cx \<noteq> 1 then Some (Inl (Rte_Exit EXIT_FAILURE ''Expect only one server ip''))
      else if cx_dst_ips cx = [] then Some (Inl (Out_Of_Bounds 0))
      else if unat (cx_batch cx) > LATENCY_BURST_SIZE then Some (Inr (1, [], t))
      else
        case get_dst_mac d (ucast (cx_dpdk_port_id cx)) (cx_src_ip cx) (cx_my_eth cx) (cx_dst_ips cx ! 0)
               broadcast_mac (cx_tx_mem_pool cx) 0 1 t of
          None \<Rightarrow> None
        | Some (Inl e) \<Rightarrow> Some (Inl e)
        | Some (Inr (server_eth, t)) \<Rightarrow>
            if cx_count_queues cx \<noteq> 1 then Some (Inl Assert_Failed)
            else (case latency_loop d cfg cx server_eth running \<lparr>lc_nb_tx = 0, lc_measurements = []\<rparr> t of
                    None \<Rightarrow> None
                  | Some (Inl e) \<Rightarrow> Some (Inl e)
                  | Some (Inr (s, t)) \<Rightarrow> Some (Inr (0, lc_measurements s, t))))"

section \<open>Specification\<close>

text \<open>One turn of the waiting loop: a poll of the queue and a reading of the clock; and what the clock
  shows then.\<close>

definition poll_once :: "dpdk \<Rightarrow> u16 \<Rightarrow> u16 \<Rightarrow> trace \<Rightarrow> trace" where
  "poll_once d port qid t = snd (timer_cycles d (snd (rx_burst d port qid LATENCY_BURST_SIZE t)))"

definition poll_clock :: "dpdk \<Rightarrow> u16 \<Rightarrow> u16 \<Rightarrow> trace \<Rightarrow> u64" where
  "poll_clock d port qid t = rte_get_timer_cycles d (snd (rx_burst d port qid LATENCY_BURST_SIZE t))"

text \<open>The packet sent, with everything but the checksums.\<close>

definition latency_frame :: "dpdk \<Rightarrow> cntx \<Rightarrow> ether_addr \<Rightarrow> u64 \<Rightarrow> mbuf \<Rightarrow> bool" where
  "latency_frame d cx server_eth timestamp b \<longleftrightarrow>
     (let f = pkt b; len = (word_of_int (cx_payload_length cx) :: u16) in
      data_len b = 42 + nat (cx_payload_length cx) \<and> l2_len b = 14 \<and> l3_len b = 20 \<and>
      ol_flags b = {F_TX_IP_CKSUM, F_TX_IPV4, F_TX_UDP_CKSUM} \<and>
      ld_mac f ETH_DST = server_eth \<and> ld_mac f ETH_SRC = cx_my_eth cx \<and>
      ld16 f ETH_TYPE = rte_cpu_to_be_16 d RTE_ETHER_TYPE_IPV4 \<and>
      ld8 f (14 + IP_VERSION_IHL) = 0x45 \<and> ld8 f (14 + IP_TOS) = 0 \<and>
      ld16 f (14 + IP_TOTAL_LENGTH) = rte_cpu_to_be_16 d (28 + len) \<and>
      ld16 f (14 + IP_PACKET_ID) = 0 \<and> ld16 f (14 + IP_FRAGMENT_OFFSET) = 0 \<and>
      ld8 f (14 + IP_TTL) = 64 \<and> ld8 f (14 + IP_PROTO) = IPPROTO_UDP \<and>
      ld32 f (14 + IP_SRC) = rte_cpu_to_be_32 d (cx_src_ip cx) \<and>
      ld32 f (14 + IP_DST) = rte_cpu_to_be_32 d (cx_dst_ips cx ! 0) \<and>
      ld16 f (34 + UDP_SRC) = rte_cpu_to_be_16 d (cx_src_port cx) \<and>
      ld16 f (34 + UDP_DST) = rte_cpu_to_be_16 d (cx_dst_port cx) \<and>
      ld16 f (34 + UDP_LEN) = rte_cpu_to_be_16 d (8 + len) \<and>
      ld64 f 42 = timestamp \<and>
      (\<forall>i. 50 \<le> i \<and> i < 42 + nat (cx_payload_length cx) \<longrightarrow> f i = 0xAB))"

text \<open>A wait that ended with the timeout, as its trace shows: the clock was read, polls found nothing, and at
  the first reading more than a second later the poll before it delivered \<open>late\<close>.\<close>

definition timed_out :: "dpdk \<Rightarrow> u16 \<Rightarrow> u16 \<Rightarrow> trace \<Rightarrow> mbuf list \<Rightarrow> bool" where
  "timed_out d port qid t late \<longleftrightarrow>
     (\<exists>v k. let start = rte_get_timer_cycles d v; turn = (\<lambda>j. (poll_once d port qid ^^ j) (Timer_Read start # v))
      in (\<forall>j < k. rte_eth_rx_burst d (turn j) port qid LATENCY_BURST_SIZE = [] \<and>
            \<not> poll_clock d port qid (turn j) - start > rte_get_timer_hz d) \<and>
         late = rte_eth_rx_burst d (turn k) port qid LATENCY_BURST_SIZE \<and>
         poll_clock d port qid (turn k) - start > rte_get_timer_hz d \<and> t = turn (Suc k))"

text \<open>Buffers that were taken and neither freed nor sent between two traces.\<close>

definition left_over :: "trace \<Rightarrow> trace \<Rightarrow> mbuf list \<Rightarrow> bool" where
  "left_over t t' late \<longleftrightarrow> (\<forall>a. outstanding t' a = outstanding t a + held late a)"

text \<open>Is a frame addressed to this host, its type, and the latency it yields, in nanoseconds.\<close>

definition for_us :: "cntx \<Rightarrow> mbuf \<Rightarrow> bool" where
  "for_us cx m \<longleftrightarrow> ld_mac (pkt m) ETH_DST \<in> {cx_my_eth cx, broadcast_addr}"

definition ether_type_of :: "dpdk \<Rightarrow> mbuf \<Rightarrow> u16" where
  "ether_type_of d m = rte_be_to_cpu_16 d (ld16 (pkt m) ETH_TYPE)"

definition latency_of :: "dpdk \<Rightarrow> u16 \<Rightarrow> u64 \<Rightarrow> mbuf \<Rightarrow> u64" where
  "latency_of d delta now m = (now - ld64 (pkt m) (42 + unat delta)) * 1000000000 div rte_get_timer_hz d"

text \<open>Values for the examples: a device that neither takes nor delivers packets, whose clock counts calls.\<close>

definition latency_cx :: cntx where
  "latency_cx = \<lparr>cx_mode = mode_latency_clinet, cx_rx_mem_pool = 0, cx_tx_mem_pool = 1, cx_worker_id = 0,
     cx_dpdk_port_id = 0, cx_default_qid = 0, cx_my_eth = Ether_Addr 2 0 0 0 0 1, cx_src_ip = 0xC0A80101,
     cx_src_port = 3000, cx_count_queues = 1, cx_use_vlan = False, cx_bidi = True, cx_do_arp = True,
     cx_delay_us = 0, cx_delay_cycles = 0, cx_managed_queues = [], cx_duration = 0, cx_dst_ips = [0xC0A80102],
     cx_count_dst_ip = 1, cx_dst_port = 8080, cx_payload_length = 64, cx_running = True, cx_count_flow = 1,
     cx_base_port_number = 8080, cx_destination_distribution = DIST_UNIFORM,
     cx_queue_selection_distribution = DIST_UNIFORM, cx_rate_limit = False, cx_rate = 0, cx_batch = 1\<rparr>"

definition latency_sim :: dpdk where
  "latency_sim = sim (\<lambda>t. of_nat (length t)) (\<lambda>_ _. []) (\<lambda>_. 0) (Ether_Addr 2 0 0 0 0 1)"

definition latency_reply :: "ether_addr \<Rightarrow> u64 \<Rightarrow> mbuf" where
  "latency_reply dst timestamp = (empty_mbuf 7)\<lparr>pkt := st64 (st16 (st_mac (\<lambda>_. 0) ETH_DST dst) ETH_TYPE
     (bswap16 RTE_ETHER_TYPE_IPV4)) 42 timestamp\<rparr>"

section \<open>The packets sent\<close>

lemma payload_words:
  fixes n :: int
  assumes "8 \<le> n" and "n \<le> 65507"
  shows "unat (ucast (8 + word_of_int n :: u32) :: u16) = 8 + nat n"
    and "unat (8 + word_of_int n :: u16) = 8 + nat n"
    and "(ucast (28 + word_of_int n :: u32) :: u16) = 28 + word_of_int n"
    and "(ucast (8 + word_of_int n :: u32) :: u16) = 8 + word_of_int n"
    and "unat ((ucast (word_of_int n :: u32) :: u64) - 8) = nat n - 8"
proof -
  obtain k where k: "n = int k" using assms(1) nonneg_int_cases by (metis order.trans zero_le_numeral)
  have b: "8 \<le> k" "k \<le> 65507" using assms k by auto
  show "unat (ucast (8 + word_of_int n :: u32) :: u16) = 8 + nat n"
    using b by (simp add: k unsigned_ucast_eq unat_word_ariths take_bit_nat_eq_self unsigned_of_nat)
  show "unat (8 + word_of_int n :: u16) = 8 + nat n"
    using b by (simp add: k unat_word_ariths take_bit_nat_eq_self unsigned_of_nat)
  show "(ucast (28 + word_of_int n :: u32) :: u16) = 28 + word_of_int n"
    by (rule word_unat_eq_iff [THEN iffD2]) (use b in \<open>simp add: k unsigned_ucast_eq unat_word_ariths unsigned_of_nat take_bit_eq_mod\<close>)
  show "(ucast (8 + word_of_int n :: u32) :: u16) = 8 + word_of_int n"
    by (rule word_unat_eq_iff [THEN iffD2]) (use b in \<open>simp add: k unsigned_ucast_eq unat_word_ariths unsigned_of_nat take_bit_eq_mod\<close>)
  have "(ucast (word_of_int n :: u32) :: u64) = of_nat k"
    by (rule word_unat_eq_iff [THEN iffD2]) (use b in \<open>simp add: k unsigned_ucast_eq unsigned_of_nat take_bit_nat_eq_self\<close>)
  then show "unat ((ucast (word_of_int n :: u32) :: u64) - 8) = nat n - 8"
    using b by (simp add: k unat_sub word_le_nat_alt unsigned_of_nat take_bit_nat_eq_self)
qed

lemma latency_build_frame:
  assumes "append_ok d" and "data_len buf = 0" and "8 \<le> cx_payload_length cx" and "cx_payload_length cx \<le> 65507"
    and "42 + nat (cx_payload_length cx) \<le> data_room d (buf_addr buf)"
  shows "\<exists>b. latency_build d cx server_eth buf (bufs, t) =
       Inr (bufs @ [b], Timer_Read (rte_get_timer_cycles d t) # t) \<and>
     latency_frame d cx server_eth (rte_get_timer_cycles d t) b \<and> buf_addr b = buf_addr buf"
proof -
  note words = payload_words [OF assms(3,4)]
  have room: "50 + (nat (cx_payload_length cx) - 8) \<le> data_room d (buf_addr buf)" using assms(3,5) by linarith
  show ?thesis
    using assms room
    by (simp add: latency_build_def words trace_simps latency_frame_def cell_simps st_fill_at)
qed

lemma latency_build_adds:
  assumes "append_ok d" and "latency_build d cx server_eth m (bufs, t) = Inr (bufs', t')"
  shows "\<exists>b c. bufs' = bufs @ [b] \<and> buf_addr b = buf_addr m \<and> t' = Timer_Read c # t"
  using assms by (auto simp: latency_build_def trace_simps split: if_splits)

section \<open>Waiting\<close>

lemma latency_wait_step:
  "latency_wait d port qid running start t =
     (if running t
      then if poll_clock d port qid t - start > rte_get_timer_hz d
           then Some (True, rte_eth_rx_burst d t port qid LATENCY_BURST_SIZE, poll_once d port qid t)
           else if rte_eth_rx_burst d t port qid LATENCY_BURST_SIZE \<noteq> []
           then Some (False, rte_eth_rx_burst d t port qid LATENCY_BURST_SIZE, poll_once d port qid t)
           else latency_wait d port qid running start (poll_once d port qid t)
      else Some (False, [], t))"
  by (subst latency_wait.simps) (simp add: trace_simps poll_once_def poll_clock_def)

lemma latency_wait_stops:
  assumes "\<not> running t \<or> poll_clock d port qid t - start > rte_get_timer_hz d \<or>
    rte_eth_rx_burst d t port qid LATENCY_BURST_SIZE \<noteq> []"
  shows "\<exists>k \<le> 1. \<exists>lost bufs. latency_wait d port qid running start t = Some (lost, bufs, (poll_once d port qid ^^ k) t) \<and>
     (if lost then 0 < k \<and> poll_clock d port qid ((poll_once d port qid ^^ (k - 1)) t) - start > rte_get_timer_hz d
      else bufs \<noteq> [] \<or> \<not> running ((poll_once d port qid ^^ k) t))"
proof (cases "running t")
  case True
  then show ?thesis
    using assms by (intro exI [of _ 1]) (auto simp: latency_wait_step [of d port qid running start t])
next
  case False
  then show ?thesis by (intro exI [of _ 0]) (auto simp: latency_wait_step [of d port qid running start t])
qed

section \<open>Accounting\<close>

text \<open>How the waiting loop ends.\<close>

lemma latency_wait_end:
  fixes turn :: "trace \<Rightarrow> nat \<Rightarrow> trace" and d :: dpdk and port qid :: u16
  defines "turn \<equiv> \<lambda>t j. (poll_once d port qid ^^ j) t"
  assumes "latency_wait d port qid running start t = Some (lost, bufs, t')"
  shows "\<exists>k. (\<forall>j < k. rte_eth_rx_burst d (turn t j) port qid LATENCY_BURST_SIZE = [] \<and>
        \<not> poll_clock d port qid (turn t j) - start > rte_get_timer_hz d) \<and>
     (t' = turn t (Suc k) \<and> bufs = rte_eth_rx_burst d (turn t k) port qid LATENCY_BURST_SIZE \<and>
        lost = (poll_clock d port qid (turn t k) - start > rte_get_timer_hz d) \<or>
      t' = turn t k \<and> bufs = [] \<and> \<not> lost)"
proof -
  let ?P = "\<lambda>d port qid (start :: u64) t r. \<exists>k. (\<forall>j < k. rte_eth_rx_burst d ((poll_once d port qid ^^ j) t) port qid LATENCY_BURST_SIZE = [] \<and>
        \<not> poll_clock d port qid ((poll_once d port qid ^^ j) t) - start > rte_get_timer_hz d) \<and>
     (r = (poll_clock d port qid ((poll_once d port qid ^^ k) t) - start > rte_get_timer_hz d,
           rte_eth_rx_burst d ((poll_once d port qid ^^ k) t) port qid LATENCY_BURST_SIZE, (poll_once d port qid ^^ Suc k) t) \<or>
      r = (False, [], (poll_once d port qid ^^ k) t))"
  have "?P d port qid start t (lost, bufs, t')"
  proof (rule latency_wait.raw_induct [OF _ assms(2)])
    fix f and d :: dpdk and port qid :: u16 and running and start :: u64 and t :: trace and r :: "bool \<times> mbuf list \<times> trace"
    assume IH: "\<And>d port qid running start t r. f d port qid running start t = Some r \<Longrightarrow> ?P d port qid start t r"
      and eq: "(if running t
        then let (bufs, t) = rx_burst d port qid LATENCY_BURST_SIZE t;
                 (now, t) = timer_cycles d t
             in if now - start > rte_get_timer_hz d then Some (True, bufs, t)
                else if bufs \<noteq> [] then Some (False, bufs, t)
                else f d port qid running start t
        else Some (False, [], t)) = Some r"
    let ?t = "poll_once d port qid t"
    consider "r = (False, [], t)"
      | "r = (poll_clock d port qid t - start > rte_get_timer_hz d, rte_eth_rx_burst d t port qid LATENCY_BURST_SIZE, ?t)"
      | "rte_eth_rx_burst d t port qid LATENCY_BURST_SIZE = []" "\<not> poll_clock d port qid t - start > rte_get_timer_hz d"
        "f d port qid running start ?t = Some r"
      using eq by (auto simp: trace_simps poll_once_def poll_clock_def split: if_splits)
    then show "?P d port qid start t r"
    proof cases
      case 3
      from IH [OF 3(3)] obtain k where k: "\<forall>j < k. rte_eth_rx_burst d ((poll_once d port qid ^^ j) ?t) port qid LATENCY_BURST_SIZE = [] \<and>
            \<not> poll_clock d port qid ((poll_once d port qid ^^ j) ?t) - start > rte_get_timer_hz d"
        "r = (poll_clock d port qid ((poll_once d port qid ^^ k) ?t) - start > rte_get_timer_hz d,
           rte_eth_rx_burst d ((poll_once d port qid ^^ k) ?t) port qid LATENCY_BURST_SIZE, (poll_once d port qid ^^ Suc k) ?t) \<or>
         r = (False, [], (poll_once d port qid ^^ k) ?t)" by blast
      have shift: "(poll_once d port qid ^^ m) ?t = (poll_once d port qid ^^ Suc m) t" for m
        by (simp add: funpow_swap1)
      show ?thesis
        using k 3(1,2) unfolding shift by (intro exI [of _ "Suc k"]) (auto simp: less_Suc_eq_0_disj simp del: funpow.simps(2))
    qed (auto intro: exI [of _ 0])
  qed
  then show ?thesis unfolding turn_def by auto
qed

lemma poll_once_balance: "outstanding (poll_once d port qid t) a = outstanding t a + held (rte_eth_rx_burst d t port qid LATENCY_BURST_SIZE) a"
  by (simp add: poll_once_def trace_simps)

lemma polls_balance:
  "\<forall>j < k. rte_eth_rx_burst d ((poll_once d port qid ^^ j) t) port qid LATENCY_BURST_SIZE = [] \<Longrightarrow>
     outstanding ((poll_once d port qid ^^ k) t) a = outstanding t a"
  by (induction k) (simp_all add: poll_once_balance)

lemma latency_wait_balance:
  assumes "latency_wait d port qid running start t = Some (lost, bufs, t')"
  shows "outstanding t' a = outstanding t a + held bufs a"
proof -
  obtain k where empty: "\<forall>j < k. rte_eth_rx_burst d ((poll_once d port qid ^^ j) t) port qid LATENCY_BURST_SIZE = []"
    and t': "t' = (poll_once d port qid ^^ Suc k) t \<and>
        bufs = rte_eth_rx_burst d ((poll_once d port qid ^^ k) t) port qid LATENCY_BURST_SIZE \<or>
      t' = (poll_once d port qid ^^ k) t \<and> bufs = []"
    using latency_wait_end [OF assms] by blast
  from t' polls_balance [OF empty, of a] show ?thesis by (auto simp: poll_once_balance)
qed

lemma latency_wait_timed_out:
  assumes "latency_wait d port qid running now (Timer_Read now # t) = Some (True, bufs, t1)" and "now = rte_get_timer_cycles d t"
  shows "timed_out d port qid t1 bufs"
proof -
  let ?turn = "\<lambda>j. (poll_once d port qid ^^ j) (Timer_Read now # t)"
  obtain k where "\<forall>j < k. rte_eth_rx_burst d (?turn j) port qid LATENCY_BURST_SIZE = [] \<and>
      \<not> poll_clock d port qid (?turn j) - now > rte_get_timer_hz d"
    "t1 = ?turn (Suc k)" "bufs = rte_eth_rx_burst d (?turn k) port qid LATENCY_BURST_SIZE"
    "poll_clock d port qid (?turn k) - now > rte_get_timer_hz d"
    using latency_wait_end [OF assms(1)] by blast
  then show ?thesis unfolding timed_out_def Let_def assms(2) by blast
qed

lemma latency_packet_balance:
  assumes "append_ok d" and "tx_ok d" and "latency_packet d cx delta now m (s, t) = Inr (s', t')"
  shows "outstanding t' a = outstanding t a - held [m] a"
proof -
  obtain v t1 where chk: "check_eth_hdr d (cx_src_ip cx) (cx_my_eth cx) m (cx_tx_mem_pool cx) 0 t = Inr (v, t1)"
    using assms(3) by (auto simp: latency_packet_def split: sum.splits)
  have "t' = Mbuf_Free m # t1"
    using assms(3) chk by (auto simp: latency_packet_def trace_simps split: if_splits)
  then show ?thesis using check_eth_hdr_balance [OF assms(1,2) chk, of a] by simp
qed

lemma latency_rx_handler: "append_ok d \<Longrightarrow> tx_ok d \<Longrightarrow> rx_handler (latency_packet d cx delta now) (\<lambda>_. [])"
  by unfold_locales (simp add: latency_packet_balance)

lemma latency_build_handler: "append_ok d \<Longrightarrow> rx_handler (latency_build d cx server_eth) (\<lambda>bufs. bufs)"
  by unfold_locales (force dest: latency_build_adds)

lemma latency_turn_left_over:
  assumes "append_ok d" and "tx_ok d"
    and "latency_wait d port qid running now (Timer_Read now # t) = Some (lost, bufs, t1)"
    and "fold_res (latency_packet d cx delta now1) bufs (s, Timer_Read now1 # t1) = Inr (s2, t2)"
  shows "left_over t t2 []"
  using latency_wait_balance [OF assms(3)] rx_handler.burst_balance [OF latency_rx_handler [OF assms(1,2)] assms(4)]
  by (simp add: left_over_def)

text \<open>Receiving loses the packets that arrive with the timeout, and no others.\<close>

lemma latency_recv_left_over:
  assumes "append_ok d" and "tx_ok d" and "latency_recv d cx delta running s t = Some (Inr (lost, s', t'))"
  shows "\<exists>late. left_over t t' late \<and>
     (if lost then timed_out d (ucast (cx_dpdk_port_id cx)) (cx_default_qid cx) t' late else late = [])"
proof -
  let ?P = "\<lambda>d cx t r. append_ok d \<longrightarrow> tx_ok d \<longrightarrow> (case r of Inl e \<Rightarrow> True | Inr (lost, s', t') \<Rightarrow>
      \<exists>late. left_over t t' late \<and>
        (if lost then timed_out d (ucast (cx_dpdk_port_id cx)) (cx_default_qid cx) t' late else late = []))"
  have "?P d cx t (Inr (lost, s', t') :: (bool \<times> latency_state \<times> trace) res)"
  proof (rule latency_recv.raw_induct [OF _ assms(3)], intro impI)
    fix f and d :: dpdk and cx :: cntx and delta :: u16 and running and s :: latency_state and t :: trace
      and r :: "(bool \<times> latency_state \<times> trace) res"
    assume IH: "\<And>d cx delta running s t r. f d cx delta running s t = Some r \<Longrightarrow> ?P d cx t r"
      and eq: "(let (start_since_sent, t) = timer_cycles d t
      in case latency_wait d (ucast (cx_dpdk_port_id cx)) (cx_default_qid cx) running start_since_sent t of
           None \<Rightarrow> None
         | Some (pkt_lost, bufs, t) \<Rightarrow>
             if pkt_lost then Some (Inr (True, s, t))
             else
               let (resp_recv_time, t) = timer_cycles d t
               in case fold_res (latency_packet d cx delta resp_recv_time) bufs (s, t) of
                    Inl e \<Rightarrow> Some (Inl e)
                  | Inr (s, t) \<Rightarrow>
                      if lc_nb_tx s > 0 \<and> running t then f d cx delta running s t
                      else Some (Inr (False, s, t))) = Some r"
      and ok: "append_ok d" "tx_ok d"
    let ?now = "rte_get_timer_cycles d t" and ?port = "ucast (cx_dpdk_port_id cx) :: u16" and ?qid = "cx_default_qid cx"
    obtain lost bufs t1 where wait: "latency_wait d ?port ?qid running ?now (Timer_Read ?now # t) = Some (lost, bufs, t1)"
      using eq by (auto simp: trace_simps split: option.splits)
    let ?now1 = "rte_get_timer_cycles d t1"
    consider "lost" "r = Inr (True, s, t1)" | e where "r = Inl e"
      | s2 t2 where "fold_res (latency_packet d cx delta ?now1) bufs (s, Timer_Read ?now1 # t1) = Inr (s2, t2)"
          "f d cx delta running s2 t2 = Some r \<or> r = Inr (False, s2, t2)"
      using eq wait by (auto simp: trace_simps split: if_splits sum.splits)
    then show "case r of Inl e \<Rightarrow> True | Inr (lost, s', t') \<Rightarrow>
        \<exists>late. left_over t t' late \<and> (if lost then timed_out d ?port ?qid t' late else late = [])"
    proof cases
      case 1
      have "left_over t t1 bufs" using latency_wait_balance [OF wait] by (simp add: left_over_def)
      moreover have "timed_out d ?port ?qid t1 bufs" using latency_wait_timed_out wait 1(1) by simp
      ultimately show ?thesis using 1(2) by auto
    next
      case (3 s2 t2)
      have turn: "left_over t t2 []" by (rule latency_turn_left_over [OF ok wait 3(1)])
      from 3(2) show ?thesis
      proof
        assume "f d cx delta running s2 t2 = Some r"
        moreover have "left_over t2 = left_over t" using turn by (simp add: left_over_def fun_eq_iff)
        ultimately show ?thesis using IH [of d cx delta running s2 t2 r] ok by (simp only: simp_thms)
      qed (use turn in auto)
    qed simp
  qed
  with assms(1,2) show ?thesis by simp
qed

section \<open>Measurements\<close>

lemma latency_packet_eq:
  assumes "ether_ok d" and "rte_get_timer_hz d \<noteq> 0" and "ether_type_of d m \<noteq> RTE_ETHER_TYPE_ARP"
    and "length (lc_measurements s) + 1 < max_measure_size"
  shows "latency_packet d cx delta now m (s, t) =
     Inr (if for_us cx m
          then s\<lparr>lc_nb_tx := lc_nb_tx s - 1,
                 lc_measurements := lc_measurements s @
                   (if ether_type_of d m = RTE_ETHER_TYPE_IPV4 then [latency_of d delta now m] else [])\<rparr>
          else s, Mbuf_Free m # t)"
  using assms
  by (simp add: latency_packet_def check_eth_hdr_def for_us_def ether_type_of_def latency_of_def trace_simps mult.assoc)

section \<open>Properties\<close>

text \<open>C21. Waiting for replies ends: if the clock shows more than a second since the start after some number
  of polls, the loop returns by then. It reports lost packets only when the second is over, and
  otherwise returns packets or has been told to stop.\<close>

theorem latency_wait_returns:
  assumes "poll_clock d port qid ((poll_once d port qid ^^ n) t) - start > rte_get_timer_hz d"
  shows "\<exists>k \<le> Suc n. \<exists>lost bufs. latency_wait d port qid running start t = Some (lost, bufs, (poll_once d port qid ^^ k) t) \<and>
     (if lost then 0 < k \<and> poll_clock d port qid ((poll_once d port qid ^^ (k - 1)) t) - start > rte_get_timer_hz d
      else bufs \<noteq> [] \<or> \<not> running ((poll_once d port qid ^^ k) t))"
  using assms
proof (induction n arbitrary: t)
  case 0
  then show ?case using latency_wait_stops [of running t d port qid start] by simp
next
  case (Suc n)
  let ?t = "poll_once d port qid t"
  show ?case
  proof (cases "\<not> running t \<or> poll_clock d port qid t - start > rte_get_timer_hz d \<or>
      rte_eth_rx_burst d t port qid LATENCY_BURST_SIZE \<noteq> []")
    case True
    let ?P = "\<lambda>k. \<exists>lost bufs. latency_wait d port qid running start t = Some (lost, bufs, (poll_once d port qid ^^ k) t) \<and>
       (if lost then 0 < k \<and> poll_clock d port qid ((poll_once d port qid ^^ (k - 1)) t) - start > rte_get_timer_hz d
        else bufs \<noteq> [] \<or> \<not> running ((poll_once d port qid ^^ k) t))"
    from True have "\<exists>k \<le> 1. ?P k" by (rule latency_wait_stops)
    then obtain k where "k \<le> 1 \<and> ?P k" by (rule exE)
    then show ?thesis by (intro exI [of _ k] conjI) simp_all
  next
    case False
    then have step: "latency_wait d port qid running start t = latency_wait d port qid running start ?t"
      by (subst latency_wait_step) simp
    obtain k lost bufs where k: "k \<le> Suc n"
      "latency_wait d port qid running start ?t = Some (lost, bufs, (poll_once d port qid ^^ k) ?t)"
      "if lost then 0 < k \<and> poll_clock d port qid ((poll_once d port qid ^^ (k - 1)) ?t) - start > rte_get_timer_hz d
       else bufs \<noteq> [] \<or> \<not> running ((poll_once d port qid ^^ k) ?t)"
      using Suc.IH [of ?t] Suc.prems by (auto simp: funpow_swap1)
    have shift: "(poll_once d port qid ^^ m) ?t = (poll_once d port qid ^^ Suc m) t" for m
      by (simp add: funpow_swap1)
    show ?thesis
      unfolding step using k
      by (intro exI [of _ "Suc k"]) (cases k; auto simp: shift simp del: funpow.simps split: if_splits)
  qed
qed

text \<open>C23. What a burst of replies does, when it holds no ARP: every packet is freed; the number of
  packets still expected goes down by the number of packets for this host, in 32 bits, so below
  zero it wraps around; and one latency is stored for each IPv4 packet for this host, in order of
  arrival, the time since its timestamp in nanoseconds.\<close>

theorem latency_burst_measured:
  assumes "ether_ok d" and "rte_get_timer_hz d \<noteq> 0" and "list_all (\<lambda>m. ether_type_of d m \<noteq> RTE_ETHER_TYPE_ARP) ms"
    and "length (lc_measurements s) + length ms < max_measure_size"
  shows "fold_res (latency_packet d cx delta now) ms (s, t) =
     Inr (s\<lparr>lc_nb_tx := lc_nb_tx s - of_nat (length (filter (for_us cx) ms)),
            lc_measurements := lc_measurements s @
              map (latency_of d delta now) (filter (\<lambda>m. for_us cx m \<and> ether_type_of d m = RTE_ETHER_TYPE_IPV4) ms)\<rparr>,
          map Mbuf_Free (rev ms) @ t)"
  using assms(3,4)
proof (induction ms arbitrary: s t)
  case (Cons m ms)
  then have "latency_packet d cx delta now m (s, t) =
     Inr (if for_us cx m
          then s\<lparr>lc_nb_tx := lc_nb_tx s - 1,
                 lc_measurements := lc_measurements s @
                   (if ether_type_of d m = RTE_ETHER_TYPE_IPV4 then [latency_of d delta now m] else [])\<rparr>
          else s, Mbuf_Free m # t)"
    by (intro latency_packet_eq [OF assms(1,2)]) auto
  then show ?case using Cons by (simp add: algebra_simps)
qed simp

text \<open>C22. Exactly which buffers a round of the latency client loses: when the burst could be allocated,
  those packets of the burst it built that the device refused, always, and the packets of the
  poll that ended in a timeout, if receiving did; all other buffers are freed or sent exactly
  once. When the burst could not be allocated nothing is lost.\<close>

theorem latency_iter_leaks:
  assumes "append_ok d" and "tx_ok d" and "latency_iter d cfg cx server_eth running s t = Some (Inr (run, s', t'))"
    and "port = ucast (cx_dpdk_port_id cx)" and "qid = cx_default_qid cx"
  shows "case rte_pktmbuf_alloc_bulk d t (cx_tx_mem_pool cx) (unat (cx_batch cx)) of
      None \<Rightarrow> \<forall>a. outstanding t' a = outstanding t a
    | Some ms \<Rightarrow> \<exists>bufs t1 n lost t2 late.
        fold_res (latency_build d cx server_eth) ms ([], Mbuf_Alloc ms # t) = Inr (bufs, t1) \<and>
        n = rte_eth_tx_burst d t1 port qid bufs \<and>
        latency_recv d cx (cf_hdr_encp_sz cfg) running (s\<lparr>lc_nb_tx := of_nat n\<rparr>) (Tx_Burst port qid bufs n # t1) =
          Some (Inr (lost, s', t2)) \<and>
        (if lost then t' = t2 \<and> timed_out d port qid t' late else late = []) \<and>
        (\<forall>a. outstanding t' a = outstanding t a + held (drop n bufs) a + held late a)"
proof (cases "rte_pktmbuf_alloc_bulk d t (cx_tx_mem_pool cx) (unat (cx_batch cx))")
  case None
  then show ?thesis using assms(3) by (auto simp: latency_iter_def trace_simps)
next
  case (Some ms)
  obtain bufs t1 where build: "fold_res (latency_build d cx server_eth) ms ([], Mbuf_Alloc ms # t) = Inr (bufs, t1)"
    using assms(3) Some by (auto simp: latency_iter_def trace_simps split: sum.splits)
  let ?n = "rte_eth_tx_burst d t1 port qid bufs"
  let ?t1 = "Tx_Burst port qid bufs ?n # t1"
  obtain lost t2 where recv: "latency_recv d cx (cf_hdr_encp_sz cfg) running (s\<lparr>lc_nb_tx := of_nat ?n\<rparr>) ?t1 =
      Some (Inr (lost, s', t2))" and t': "t' = t2 \<or> \<not> lost \<and> apply_delay_cycles d (cf_delay_cycles cfg) 1 t2 = Some t'"
    using assms(3-5) Some build by (auto simp: latency_iter_def trace_simps split: option.splits sum.splits if_splits)
  obtain late where late: "left_over ?t1 t2 late" "if lost then timed_out d port qid t2 late else late = []"
    using latency_recv_left_over [OF assms(1,2) recv] assms(4,5) by auto
  have "outstanding t' a = outstanding t2 a" for a using t' apply_delay_cycles_balance by blast
  moreover have "outstanding t1 a - held bufs a = outstanding t a" for a
    using rx_handler.burst_balance [OF latency_build_handler [OF assms(1)] build, of a] by simp
  ultimately have "outstanding t' a = outstanding t a + held (drop ?n bufs) a + held late a" for a
    using late(1) held_take_drop [of ?n bufs a] by (simp add: left_over_def) (smt (verit))
  moreover have "if lost then t' = t2 \<and> timed_out d port qid t' late else late = []" using late(2) t' by auto
  ultimately show ?thesis using Some build recv by auto
qed

section \<open>Examples\<close>

lemma latency_sim_ok: "append_ok latency_sim" "tx_ok latency_sim" "ether_ok latency_sim" "rte_get_timer_hz latency_sim = 1000"
  "rte_get_timer_cycles latency_sim t = of_nat (length t)" "rte_eth_tx_burst latency_sim t p q ms = 0"
  "rte_eth_rx_burst latency_sim t p q n = []" "data_room latency_sim a = 1920" "rte_be_to_cpu_16 latency_sim = bswap16"
  "rte_pktmbuf_alloc_bulk latency_sim t pool n = Some (map empty_mbuf [0..<n])"
  by (simp_all add: latency_sim_def) (simp_all add: sim_def)

theorem latency_wait_returns_witness:
  "\<exists>k \<le> 501. \<exists>lost bufs. latency_wait latency_sim 0 0 (\<lambda>_. True) 0 [] = Some (lost, bufs, (poll_once latency_sim 0 0 ^^ k) []) \<and>
     (lost \<or> bufs \<noteq> [])"
proof -
  have len: "length ((poll_once latency_sim 0 0 ^^ n) []) = 2 * n" for n
    by (induction n) (simp_all add: poll_once_def trace_simps)
  have "poll_clock latency_sim 0 0 ((poll_once latency_sim 0 0 ^^ 500) []) - 0 > rte_get_timer_hz latency_sim"
    by (simp add: poll_clock_def trace_simps latency_sim_ok len)
  from latency_wait_returns [OF this, of "\<lambda>_. True"] show ?thesis by (simp split: if_splits) (metis (full_types))
qed

theorem latency_burst_measured_witness:
  "fold_res (latency_packet latency_sim latency_cx 0 12) [latency_reply (Ether_Addr 2 0 0 0 0 1) 5, latency_reply (Ether_Addr 9 0 0 0 0 9) 6]
     (\<lparr>lc_nb_tx = 2, lc_measurements = []\<rparr>, []) =
   Inr (\<lparr>lc_nb_tx = 1, lc_measurements = [7000000]\<rparr>,
     [Mbuf_Free (latency_reply (Ether_Addr 9 0 0 0 0 9) 6), Mbuf_Free (latency_reply (Ether_Addr 2 0 0 0 0 1) 5)])"
proof -
  have us: "for_us latency_cx (latency_reply dst ts) \<longleftrightarrow> dst \<in> {Ether_Addr 2 0 0 0 0 1, broadcast_addr}"
    and ty: "ether_type_of latency_sim (latency_reply dst ts) = RTE_ETHER_TYPE_IPV4"
    and lat: "latency_of latency_sim 0 12 (latency_reply dst ts) = (12 - ts) * 1000000000 div 1000" for dst ts
    by (simp_all add: for_us_def ether_type_of_def latency_of_def latency_reply_def latency_cx_def latency_sim_ok cell_simps)
  show ?thesis
    by (subst latency_burst_measured) (simp_all add: latency_sim_ok us ty lat broadcast_addr_def)
qed

theorem latency_iter_leaks_witness:
  "\<exists>s' t'. latency_iter latency_sim default_config latency_cx (Ether_Addr 2 0 0 0 0 2) (\<lambda>t. length t < 5)
       \<lparr>lc_nb_tx = 0, lc_measurements = []\<rparr> [] = Some (Inr (True, s', t')) \<and> outstanding t' 0 = 1"
proof -
  let ?s = "\<lparr>lc_nb_tx = 0, lc_measurements = []\<rparr>"
  have sel: "cx_batch latency_cx = 1" "cx_payload_length latency_cx = 64" "cf_delay_cycles default_config = 0"
    "cx_dpdk_port_id latency_cx = 0" "cx_default_qid latency_cx = 0" "cf_hdr_encp_sz default_config = 0"
    by (simp_all add: latency_cx_def default_config_def zero_config_def set_client_port_def)
  obtain b where b: "latency_build latency_sim latency_cx (Ether_Addr 2 0 0 0 0 2) (empty_mbuf 0) ([], [Mbuf_Alloc [empty_mbuf 0]]) =
      Inr ([b], [Timer_Read 1, Mbuf_Alloc [empty_mbuf 0]])" "buf_addr b = 0"
    using latency_build_frame [OF latency_sim_ok(1), of "empty_mbuf 0" latency_cx "Ether_Addr 2 0 0 0 0 2" "[]" "[Mbuf_Alloc [empty_mbuf 0]]"]
    by (auto simp: sel latency_sim_ok empty_mbuf_def)
  let ?t1 = "[Tx_Burst 0 0 [b] 0, Timer_Read 1, Mbuf_Alloc [empty_mbuf 0]]"
  have wait: "latency_wait latency_sim 0 0 (\<lambda>t. length t < 5) 3 (Timer_Read 3 # ?t1) =
      Some (False, [], Timer_Read 5 # Rx_Burst 0 0 [] # Timer_Read 3 # ?t1)"
    by (subst latency_wait.simps, subst latency_wait.simps) (simp add: trace_simps latency_sim_ok)
  have recv: "latency_recv latency_sim latency_cx 0 (\<lambda>t. length t < 5) ?s ?t1 =
      Some (Inr (False, ?s, Timer_Read 6 # Timer_Read 5 # Rx_Burst 0 0 [] # Timer_Read 3 # ?t1))"
    by (subst latency_recv.simps) (simp add: trace_simps latency_sim_ok sel wait)
  obtain s' t' where run: "latency_iter latency_sim default_config latency_cx (Ether_Addr 2 0 0 0 0 2) (\<lambda>t. length t < 5) ?s [] =
      Some (Inr (True, s', t'))"
    by (simp add: latency_iter_def sel trace_simps latency_sim_ok b recv)
  have "outstanding t' 0 = 1"
    using latency_iter_leaks [OF latency_sim_ok(1,2) run refl refl]
    by (auto simp: sel latency_sim_ok b recv)
  with run show ?thesis by blast
qed

end
