(* ===== verification/App.thy ===== *)
theory App
  imports Client Server Latency_Client
begin

text \<open>
  The program's entry point, \<open>main.c\<close>: creating the buffer pools, setting up the port and its
  queues, filling one \<open>struct context\<close> per core, choosing the worker function and starting the
  workers, and the signal handler that stops them. The DPDK functions only \<open>main.c\<close> calls are the
  record \<open>eth_dev\<close>; as in \<open>Dpdk\<close> they answer as functions of the calls made before. The
  output streams of the workers, printing, and releasing memory are left out.
\<close>

section \<open>Model\<close>

subsection \<open>The device\<close>

abbreviation (input) "RX_RING_SIZE \<equiv> 512 :: u16"
abbreviation (input) "TX_RING_SIZE \<equiv> 512 :: u16"
abbreviation (input) "NUM_MBUFS \<equiv> 32768 :: nat"
abbreviation (input) "MBUF_CACHE_SIZE \<equiv> 512 :: nat"
abbreviation (input) "PRIV_SIZE \<equiv> 256 :: nat"
abbreviation (input) "RTE_MBUF_DEFAULT_BUF_SIZE \<equiv> 2176 :: nat"
abbreviation (input) "RTE_ETHER_MAX_LEN \<equiv> 1518 :: u32"
abbreviation (input) "MAX_CNTXS \<equiv> 20 :: nat"

datatype rx_mq_mode = RTE_ETH_MQ_RX_NONE | RTE_ETH_MQ_RX_RSS

datatype tx_offload = TX_OFFLOAD_IPV4_CKSUM | TX_OFFLOAD_UDP_CKSUM

record eth_conf =
  max_lro_pkt_size :: u32
  rx_offloads :: u64
  mq_mode :: rx_mq_mode
  rss_hf :: u64
  tx_offloads :: "tx_offload set"

definition port_conf :: eth_conf where
  "port_conf = \<lparr>max_lro_pkt_size = RTE_ETHER_MAX_LEN, rx_offloads = 0, mq_mode = RTE_ETH_MQ_RX_NONE, rss_hf = 0,
     tx_offloads = {TX_OFFLOAD_IPV4_CKSUM, TX_OFFLOAD_UDP_CKSUM}\<rparr>"

datatype dev_call =
    Pool_Create string
  | Dev_Configure u16 u16 u16 eth_conf
  | Dev_Adjust_Desc u16 u16 u16
  | Rx_Queue_Setup u16 u16 u16 mempool
  | Tx_Queue_Setup u16 u16 u16
  | Dev_Start u16

type_synonym dev_log = "dev_call list"

record eth_dev =
  rte_lcore_count :: nat
  rte_pktmbuf_pool_create :: "dev_log \<Rightarrow> string \<Rightarrow> nat \<Rightarrow> nat \<Rightarrow> nat \<Rightarrow> nat \<Rightarrow> mempool option"
  rte_eth_dev_is_valid_port :: "u16 \<Rightarrow> bool"
  rte_eth_dev_configure :: "dev_log \<Rightarrow> u16 \<Rightarrow> u16 \<Rightarrow> u16 \<Rightarrow> eth_conf \<Rightarrow> int"
  rte_eth_dev_adjust_nb_rx_tx_desc :: "dev_log \<Rightarrow> u16 \<Rightarrow> u16 \<Rightarrow> u16 \<Rightarrow> int \<times> u16 \<times> u16"
  rte_eth_rx_queue_setup :: "dev_log \<Rightarrow> u16 \<Rightarrow> u16 \<Rightarrow> u16 \<Rightarrow> mempool \<Rightarrow> int"
  rte_eth_tx_queue_setup :: "dev_log \<Rightarrow> u16 \<Rightarrow> u16 \<Rightarrow> u16 \<Rightarrow> int"
  rte_eth_dev_start :: "dev_log \<Rightarrow> u16 \<Rightarrow> int"

text \<open>The loops over the queues: set up one queue after the other, stop at the first that fails.\<close>

fun setup_queues :: "(dev_log \<Rightarrow> u16 \<Rightarrow> int) \<Rightarrow> (u16 \<Rightarrow> dev_call) \<Rightarrow> u16 list \<Rightarrow> dev_log \<Rightarrow> bool \<times> dev_log" where
  "setup_queues setup call [] calls = (True, calls)"
| "setup_queues setup call (q # qs) calls =
     (let retval = setup calls q;
          calls = call q # calls
      in if retval \<noteq> 0 then (False, calls) else setup_queues setup call qs calls)"

text \<open>The return value, the MAC address if it is stored, and the calls.\<close>

definition dpdk_port_init ::
  "eth_dev \<Rightarrow> dpdk \<Rightarrow> u8 \<Rightarrow> mempool \<Rightarrow> u16 \<Rightarrow> dev_log \<Rightarrow> int \<times> ether_addr option \<times> dev_log" where
  "dpdk_port_init E d port8 mbuf_pool queues calls =
     (let port = ucast port8
      in if \<not> rte_eth_dev_is_valid_port E port then (- 1, None, calls)
      else
        let retval = rte_eth_dev_configure E calls port queues queues port_conf;
            calls = Dev_Configure port queues queues port_conf # calls
        in if retval \<noteq> 0 then (- 1, None, calls)
        else
          let (retval, nb_rxd, nb_txd) = rte_eth_dev_adjust_nb_rx_tx_desc E calls port RX_RING_SIZE TX_RING_SIZE;
              calls = Dev_Adjust_Desc port RX_RING_SIZE TX_RING_SIZE # calls
          in if retval \<noteq> 0 then (- 1, None, calls)
          else
            let rings = map of_nat [0..<unat queues];
                (rx_ok, calls) = setup_queues (\<lambda>calls q. rte_eth_rx_queue_setup E calls port q nb_rxd mbuf_pool)
                                 (\<lambda>q. Rx_Queue_Setup port q nb_rxd mbuf_pool) rings calls
            in if \<not> rx_ok then (- 1, None, calls)
            else
              let (tx_ok, calls) = setup_queues (\<lambda>calls q. rte_eth_tx_queue_setup E calls port q nb_txd)
                                   (\<lambda>q. Tx_Queue_Setup port q nb_txd) rings calls
              in if \<not> tx_ok then (- 1, None, calls)
              else
                let retval = rte_eth_dev_start E calls port;
                    calls = Dev_Start port # calls
                in if retval < 0 then (retval, None, calls)
                   else (0, Some (rte_eth_macaddr_get d port), calls))"

text \<open>The pools are named after the process id.\<close>

definition pool_name :: "string \<Rightarrow> nat \<Rightarrow> string" where
  "pool_name prefix pid = take 63 (prefix @ dec_string pid)"

definition create_pools :: "eth_dev \<Rightarrow> nat \<Rightarrow> dev_log \<Rightarrow> (mempool \<times> mempool \<times> dev_log) res" where
  "create_pools E pid calls =
     (let rx_name = pool_name ''MUBF_RX_POOL_'' pid;
          tx_name = pool_name ''MBUF_TX_POOL_'' pid
      in case rte_pktmbuf_pool_create E calls rx_name NUM_MBUFS MBUF_CACHE_SIZE PRIV_SIZE RTE_MBUF_DEFAULT_BUF_SIZE of
           None \<Rightarrow> Inl (Rte_Exit EXIT_FAILURE ''Error can not create rx mbuf pool'')
         | Some rx_mbuf_pool \<Rightarrow>
             let calls = Pool_Create rx_name # calls
             in (case rte_pktmbuf_pool_create E calls tx_name NUM_MBUFS MBUF_CACHE_SIZE PRIV_SIZE RTE_MBUF_DEFAULT_BUF_SIZE of
                   None \<Rightarrow> Inl (Rte_Exit EXIT_FAILURE ''Error can not create tx mbuf pool'')
                 | Some tx_mbuf_pool \<Rightarrow> Inr (rx_mbuf_pool, tx_mbuf_pool, Pool_Create tx_name # calls)))"

subsection \<open>The contexts\<close>

text \<open>All bytes zero.\<close>

definition zero_cntx :: cntx where
  "zero_cntx = \<lparr>cx_mode = mode_undefined, cx_rx_mem_pool = 0, cx_tx_mem_pool = 0, cx_worker_id = 0,
     cx_dpdk_port_id = 0, cx_default_qid = 0, cx_my_eth = Ether_Addr 0 0 0 0 0 0, cx_src_ip = 0,
     cx_src_port = 0, cx_count_queues = 0, cx_use_vlan = False, cx_bidi = False, cx_do_arp = False,
     cx_delay_us = 0, cx_delay_cycles = 0, cx_managed_queues = [], cx_duration = 0, cx_dst_ips = [],
     cx_count_dst_ip = 0, cx_dst_port = 0, cx_payload_length = 0, cx_running = False, cx_count_flow = 0,
     cx_base_port_number = 0, cx_destination_distribution = DIST_UNIFORM,
     cx_queue_selection_distribution = DIST_UNIFORM, cx_rate_limit = False, cx_rate = 0, cx_batch = 0\<rparr>"

text \<open>Copying the destination addresses. An entry that was never written is an error.\<close>

definition copy_ips :: "app_config \<Rightarrow> u32 list res" where
  "copy_ips cfg =
     fold_res (\<lambda>j ips. case cf_server_ips cfg j of None \<Rightarrow> Inl (Out_Of_Bounds j) | Some ip \<Rightarrow> Inr (ips @ [ip]))
       [0..<nat (sint (cf_count_server_ips cfg))] []"

definition server_context :: "app_config \<Rightarrow> int \<Rightarrow> int \<Rightarrow> cntx \<Rightarrow> cntx" where
  "server_context cfg queue_per_core findex cx =
     cx\<lparr>cx_dst_port := 0, cx_src_port := cf_server_port cfg,
        cx_managed_queues := map (\<lambda>q. word_of_int (findex * queue_per_core + int q)) [0..<nat queue_per_core],
        cx_delay_us := cf_server_delay cfg, cx_delay_cycles := ucast (cf_server_delay cfg), cx_dst_ips := []\<rparr>"

definition client_context :: "app_config \<Rightarrow> u32 list \<Rightarrow> cntx \<Rightarrow> cntx" where
  "client_context cfg ips cx =
     cx\<lparr>cx_src_port := cf_client_port cfg, cx_dst_ips := ips, cx_count_dst_ip := sint (cf_count_server_ips cfg),
        cx_dst_port := cf_server_port cfg, cx_payload_length := sint (cf_payload_size cfg),
        cx_count_flow := word_of_int (cf_count_flow cfg), cx_base_port_number := ucast (cf_server_port cfg),
        cx_duration := cf_duration cfg, cx_delay_cycles := cf_delay_cycles cfg,
        cx_destination_distribution := DIST_UNIFORM, cx_queue_selection_distribution := DIST_UNIFORM,
        cx_managed_queues := [], cx_batch := cf_batch cfg\<rparr>"

text \<open>One iteration of the loop that fills the contexts, for core \<open>i\<close>. The state is the contexts so
  far, \<open>next_qid\<close> and \<open>findex\<close>. The array has 20 elements.\<close>

definition fill_context ::
  "app_config \<Rightarrow> mempool \<Rightarrow> mempool \<Rightarrow> ether_addr \<Rightarrow> int \<Rightarrow> nat \<Rightarrow> cntx list \<times> int \<times> int \<Rightarrow> (cntx list \<times> int \<times> int) res" where
  "fill_context cfg rx_mbuf_pool tx_mbuf_pool my_eth queue_per_core i st =
     (let (cntxs, next_qid, findex) = st
      in if MAX_CNTXS \<le> i then Inl (Out_Of_Bounds i)
      else
        let cx = zero_cntx\<lparr>cx_mode := cf_mode cfg, cx_rx_mem_pool := rx_mbuf_pool, cx_tx_mem_pool := tx_mbuf_pool,
               cx_worker_id := of_nat i, cx_dpdk_port_id := 0, cx_my_eth := my_eth,
               cx_default_qid := word_of_int next_qid\<rparr>;
            next_qid = next_qid + queue_per_core
        in if \<not> next_qid - 1 < int (unat (cf_num_queues cfg)) then Inl Assert_Failed
        else
          let cx = cx\<lparr>cx_running := True, cx_src_ip := cf_source_ip cfg, cx_use_vlan := cf_use_vlan cfg,
                 cx_bidi := cf_bidi cfg, cx_do_arp := cf_do_arp cfg, cx_count_queues := word_of_int queue_per_core,
                 cx_rate_limit := cf_rate_limit cfg, cx_rate := cf_rate cfg\<rparr>
          in if cf_mode cfg = mode_server
             then Inr (cntxs @ [server_context cfg queue_per_core findex cx], next_qid, findex + 1)
             else (case copy_ips cfg of
                     Inl e \<Rightarrow> Inl e
                   | Inr ips \<Rightarrow> Inr (cntxs @ [client_context cfg ips cx], next_qid, findex)))"

subsection \<open>The program\<close>

text \<open>\<open>main\<close> from the number of cores to the filled contexts.\<close>

definition main_contexts :: "eth_dev \<Rightarrow> dpdk \<Rightarrow> nat \<Rightarrow> app_config \<Rightarrow> dev_log \<Rightarrow> (cntx list \<times> dev_log) res" where
  "main_contexts E d pid cfg calls =
     (let count_core = rte_lcore_count E; num_queues = unat (cf_num_queues cfg)
      in if count_core > num_queues then Inl (Rte_Exit EXIT_FAILURE ''count core is more than available queues'')
      else if \<not> rte_eth_dev_is_valid_port E 0 then Inl (Rte_Exit EXIT_FAILURE ''Error no available port'')
      else case create_pools E pid calls of
        Inl e \<Rightarrow> Inl e
      | Inr (rx_mbuf_pool, tx_mbuf_pool, calls) \<Rightarrow>
          (case dpdk_port_init E d 0 rx_mbuf_pool (cf_num_queues cfg) calls of
             (retval, eth, calls) \<Rightarrow>
               if retval \<noteq> 0 then Inl (Rte_Exit EXIT_FAILURE ''Cannot init port 0'')
               else if count_core = 0 then Inl Div_By_Zero
               else if num_queues mod count_core \<noteq> 0 then Inl Assert_Failed
               else
                 let my_eth = (case eth of None \<Rightarrow> Ether_Addr 0 0 0 0 0 0 | Some a \<Rightarrow> a)
                 in case fold_res (fill_context cfg rx_mbuf_pool tx_mbuf_pool my_eth (int (num_queues div count_core)))
                           [0..<count_core] ([], 0, 0) of
                      Inl e \<Rightarrow> Inl e
                    | Inr (cntxs, _, _) \<Rightarrow> Inr (cntxs, calls)))"

definition app_main ::
  "eth_dev \<Rightarrow> dpdk \<Rightarrow> fpu \<Rightarrow> (string list \<Rightarrow> int) \<Rightarrow> nat \<Rightarrow> string list \<Rightarrow> (app_config \<times> cntx list \<times> dev_log) res" where
  "app_main E d F rte_eal_init pid argv =
     guard_res (parse_args F rte_eal_init argv) (\<lambda>cfg.
     guard_res (main_contexts E d pid cfg []) (\<lambda>(cntxs, calls). Inr (cfg, cntxs, calls)))"

text \<open>The contexts in the order in which they are started: the other cores first, each with the next
  context from 1 on, then the main core with context 0.\<close>

definition launches :: "cntx list \<Rightarrow> cntx list" where
  "launches cntxs = map (\<lambda>i. cntxs ! i) ([1..<length cntxs] @ [0])"

datatype worker_outcome =
    Server_Done cntx server_state
  | Client_Done cntx client_state
  | Latency_Done int "u64 list"

text \<open>The function a core runs on its context.\<close>

definition process_function ::
  "dpdk \<Rightarrow> fpu \<Rightarrow> build_flags \<Rightarrow> app_config \<Rightarrow> (trace \<Rightarrow> bool) \<Rightarrow> rng \<Rightarrow> cntx \<Rightarrow> trace \<Rightarrow>
     (worker_outcome \<times> trace) res option" where
  "process_function d F fl cfg running g cx t =
     (case cf_mode cfg of
        mode_server \<Rightarrow> map_option (map_sum id (\<lambda>(cx, s, t). (Server_Done cx s, t))) (do_server d cx running t)
      | mode_latency_clinet \<Rightarrow>
          map_option (map_sum id (\<lambda>(ret, ms, t). (Latency_Done ret ms, t))) (do_latency_client d cfg cx running t)
      | _ \<Rightarrow> map_option (map_sum id (\<lambda>(cx, s, t). (Client_Done cx s, t))) (do_client d F fl cfg cx running g t))"

text \<open>\<open>handle_main_int\<close>, and the end of a server run: all workers are asked to stop.\<close>

definition stop_workers :: "nat \<Rightarrow> cntx list \<Rightarrow> cntx list res" where
  "stop_workers count_core cntxs =
     fold_res (\<lambda>i cntxs. if i < MAX_CNTXS then Inr (cntxs[i := (cntxs ! i)\<lparr>cx_running := False\<rparr>])
                         else Inl (Out_Of_Bounds i)) [0..<count_core] cntxs"

definition handle_main_int :: "eth_dev \<Rightarrow> bool \<times> cntx list \<Rightarrow> (bool \<times> cntx list) res" where
  "handle_main_int E st =
     (let (signal_received, context_ptr) = st
      in case stop_workers (rte_lcore_count E) context_ptr of Inl e \<Rightarrow> Inl e | Inr cntxs \<Rightarrow> Inr (True, cntxs))"

section \<open>Specification\<close>

text \<open>All calls of a successful port initialisation, the latest first.\<close>

definition port_setup_calls :: "u16 \<Rightarrow> mempool \<Rightarrow> u16 \<Rightarrow> u16 \<Rightarrow> u16 \<Rightarrow> dev_log" where
  "port_setup_calls port pool queues nb_rxd nb_txd =
     Dev_Start port # rev (map (\<lambda>q. Tx_Queue_Setup port (of_nat q) nb_txd) [0..<unat queues]) @
     rev (map (\<lambda>q. Rx_Queue_Setup port (of_nat q) nb_rxd pool) [0..<unat queues]) @
     [Dev_Adjust_Desc port RX_RING_SIZE TX_RING_SIZE, Dev_Configure port queues queues port_conf]"

text \<open>What the device answers to a call made after the calls \<open>calls\<close>, and whether that is success.\<close>

fun call_result :: "eth_dev \<Rightarrow> dev_log \<Rightarrow> dev_call \<Rightarrow> int" where
  "call_result E calls (Dev_Configure port rx tx conf) = rte_eth_dev_configure E calls port rx tx conf"
| "call_result E calls (Dev_Adjust_Desc port rx tx) = fst (rte_eth_dev_adjust_nb_rx_tx_desc E calls port rx tx)"
| "call_result E calls (Rx_Queue_Setup port q n pool) = rte_eth_rx_queue_setup E calls port q n pool"
| "call_result E calls (Tx_Queue_Setup port q n) = rte_eth_tx_queue_setup E calls port q n"
| "call_result E calls (Dev_Start port) = rte_eth_dev_start E calls port"
| "call_result E calls (Pool_Create name) = 0"

definition call_ok :: "eth_dev \<Rightarrow> dev_log \<Rightarrow> dev_call \<Rightarrow> bool" where
  "call_ok E calls c \<longleftrightarrow> (case c of Dev_Start port \<Rightarrow> 0 \<le> call_result E calls c | _ \<Rightarrow> call_result E calls c = 0)"

text \<open>Making calls in order up to the first that fails.\<close>

fun run_calls :: "eth_dev \<Rightarrow> dev_call list \<Rightarrow> dev_log \<Rightarrow> bool \<times> dev_log" where
  "run_calls E [] calls = (True, calls)"
| "run_calls E (c # cs) calls = (if call_ok E calls c then run_calls E cs (c # calls) else (False, c # calls))"

text \<open>The context of core \<open>i\<close> out of \<open>n\<close>, with \<open>k\<close> queues per core.\<close>

definition core_context :: "app_config \<Rightarrow> mempool \<Rightarrow> mempool \<Rightarrow> ether_addr \<Rightarrow> nat \<Rightarrow> nat \<Rightarrow> cntx" where
  "core_context cfg rx tx my_eth k i =
     (let ips = (case copy_ips cfg of Inl e \<Rightarrow> [] | Inr ips \<Rightarrow> ips);
          cx = zero_cntx\<lparr>cx_mode := cf_mode cfg, cx_rx_mem_pool := rx, cx_tx_mem_pool := tx,
            cx_worker_id := of_nat i, cx_dpdk_port_id := 0, cx_my_eth := my_eth, cx_default_qid := of_nat (i * k),
            cx_running := True, cx_src_ip := cf_source_ip cfg, cx_use_vlan := cf_use_vlan cfg,
            cx_bidi := cf_bidi cfg, cx_do_arp := cf_do_arp cfg, cx_count_queues := of_nat k,
            cx_rate_limit := cf_rate_limit cfg, cx_rate := cf_rate cfg\<rparr>
      in if cf_mode cfg = mode_server then server_context cfg (int k) (int i) cx else client_context cfg ips cx)"

text \<open>A context fit for its worker.\<close>

definition context_ok :: "app_config \<Rightarrow> cntx \<Rightarrow> bool" where
  "context_ok cfg cx \<longleftrightarrow>
     cx_mode cx = cf_mode cfg \<and> cx_running cx \<and> cx_src_ip cx \<noteq> 0 \<and> 0 < cx_count_queues cx \<and>
     unat (cx_default_qid cx) + unat (cx_count_queues cx) \<le> unat (cf_num_queues cfg) \<and>
     (if cf_mode cfg = mode_server
      then length (cx_managed_queues cx) = unat (cx_count_queues cx) \<and>
           list_all (\<lambda>q. unat q < unat (cf_num_queues cfg)) (cx_managed_queues cx)
      else 1 \<le> cx_count_dst_ip cx \<and> cx_count_dst_ip cx \<le> 32 \<and> int (length (cx_dst_ips cx)) = cx_count_dst_ip cx \<and>
           0 < cx_batch cx \<and> 0 < cx_payload_length cx \<and> cx_destination_distribution cx = DIST_UNIFORM \<and>
           cx_queue_selection_distribution cx = DIST_UNIFORM)"

text \<open>Values for the examples: a device on which every call succeeds, and a server with four queues.\<close>

definition sim_dev :: "nat \<Rightarrow> eth_dev" where
  "sim_dev n = \<lparr>rte_lcore_count = n, rte_pktmbuf_pool_create = (\<lambda>calls _ _ _ _ _. Some (length calls + 1)),
     rte_eth_dev_is_valid_port = (\<lambda>port. port = 0), rte_eth_dev_configure = (\<lambda>_ _ _ _ _. 0),
     rte_eth_dev_adjust_nb_rx_tx_desc = (\<lambda>_ _ rx tx. (0, rx, tx)), rte_eth_rx_queue_setup = (\<lambda>_ _ _ _ _. 0),
     rte_eth_tx_queue_setup = (\<lambda>_ _ _ _. 0), rte_eth_dev_start = (\<lambda>_ _. 0)\<rparr>"

definition server_config_example :: app_config where
  "server_config_example = zero_config\<lparr>cf_mode := mode_server, cf_num_queues := 4, cf_source_ip := 0xC0A80102\<rparr>"

section \<open>Setting up the port\<close>

lemma setup_queues_ok:
  "setup_queues setup call qs calls = (True, calls') \<Longrightarrow> calls' = rev (map call qs) @ calls"
  by (induction qs arbitrary: calls) (auto simp: Let_def split: if_splits)

lemma setup_queues_failed:
  "setup_queues setup call qs calls = (False, calls') \<Longrightarrow> \<exists>q. hd calls' = call q"
  by (induction qs arbitrary: calls) (auto simp: Let_def split: if_splits)

lemma dpdk_port_init_ok:
  assumes "dpdk_port_init E d port pool queues calls = (0, eth, calls')"
  shows "eth = Some (rte_eth_macaddr_get d (ucast port)) \<and>
     (\<exists>nb_rxd nb_txd. calls' = port_setup_calls (ucast port) pool queues nb_rxd nb_txd @ calls)"
  using assms
  by (auto simp: dpdk_port_init_def Let_def port_setup_calls_def o_def rev_map split: if_splits prod.splits
      dest!: setup_queues_ok)

text \<open>The initialisation makes the calls of \<open>port_setup_calls\<close> in order, checking each result.\<close>

lemma run_calls_setup:
  assumes "\<And>calls q. call_ok E calls (call q) \<longleftrightarrow> setup calls q = 0"
  shows "run_calls E (map call qs @ cs) calls =
     (let (ok, calls') = setup_queues setup call qs calls in if ok then run_calls E cs calls' else (False, calls'))"
  using assms by (induction qs arbitrary: calls) (simp_all add: Let_def)

lemma dpdk_port_init_run:
  assumes "rte_eth_dev_is_valid_port E port"
    and "rte_eth_dev_adjust_nb_rx_tx_desc E (Dev_Configure port queues queues port_conf # calls) port RX_RING_SIZE TX_RING_SIZE =
      (ret, nb_rxd, nb_txd)" and "port = ucast port8"
  shows "dpdk_port_init E d port8 pool queues calls =
     (let (ok, calls') = run_calls E (rev (port_setup_calls port pool queues nb_rxd nb_txd)) calls
      in if ok then (0, Some (rte_eth_macaddr_get d port), calls')
         else (case hd calls' of Dev_Start _ \<Rightarrow> rte_eth_dev_start E (tl calls') port | _ \<Rightarrow> - 1, None, calls'))"
proof -
  define rings where "rings = (map of_nat [0..<unat queues] :: u16 list)"
  have plan: "rev (port_setup_calls port pool queues nb_rxd nb_txd) =
      Dev_Configure port queues queues port_conf # Dev_Adjust_Desc port RX_RING_SIZE TX_RING_SIZE #
      map (\<lambda>q. Rx_Queue_Setup port q nb_rxd pool) rings @ map (\<lambda>q. Tx_Queue_Setup port q nb_txd) rings @ [Dev_Start port]"
    by (simp add: port_setup_calls_def rings_def)
  have rx: "call_ok E calls (Rx_Queue_Setup port q nb_rxd pool) \<longleftrightarrow> rte_eth_rx_queue_setup E calls port q nb_rxd pool = 0"
    and tx: "call_ok E calls (Tx_Queue_Setup port q nb_txd) \<longleftrightarrow> rte_eth_tx_queue_setup E calls port q nb_txd = 0" for calls q
    by (simp_all add: call_ok_def)
  show ?thesis
    unfolding plan dpdk_port_init_def Let_def rings_def [symmetric] assms(3) [symmetric] using assms(1,2)
    by (auto simp: Let_def call_ok_def
        run_calls_setup [of E "\<lambda>q. Rx_Queue_Setup port q nb_rxd pool", OF rx]
        run_calls_setup [of E "\<lambda>q. Tx_Queue_Setup port q nb_txd", OF tx]
        split: prod.splits if_splits dest!: setup_queues_failed)
qed

lemma run_calls_stops:
  assumes "run_calls E plan calls = (ok, calls')"
  shows "\<exists>i \<le> length plan. (\<forall>j < i. call_ok E (rev (take j plan) @ calls) (plan ! j)) \<and>
     (if ok then i = length plan \<and> calls' = rev plan @ calls
      else i < length plan \<and> \<not> call_ok E (rev (take i plan) @ calls) (plan ! i) \<and> calls' = rev (take (Suc i) plan) @ calls)"
  using assms
proof (induction plan arbitrary: calls)
  case (Cons c cs)
  show ?case
  proof (cases "call_ok E calls c")
    case True
    with Cons.prems have "run_calls E cs (c # calls) = (ok, calls')" by simp
    from Cons.IH [OF this] obtain i where i: "i \<le> length cs" "\<forall>j < i. call_ok E (rev (take j cs) @ c # calls) (cs ! j)"
      "if ok then i = length cs \<and> calls' = rev cs @ c # calls
       else i < length cs \<and> \<not> call_ok E (rev (take i cs) @ c # calls) (cs ! i) \<and> calls' = rev (take (Suc i) cs) @ c # calls"
      by blast
    then show ?thesis using True by (intro exI [of _ "Suc i"]) (auto simp: less_Suc_eq_0_disj split: if_splits)
  qed (use Cons.prems in \<open>auto intro: exI [of _ 0]\<close>)
qed simp

section \<open>Filling the contexts\<close>

lemma copy_ips_ok:
  assumes "copy_ips cfg = Inr ips"
  shows "length ips = nat (sint (cf_count_server_ips cfg))" and "j < length ips \<Longrightarrow> cf_server_ips cfg j = Some (ips ! j)"
proof -
  let ?f = "\<lambda>j ips. case cf_server_ips cfg j of None \<Rightarrow> Inl (Out_Of_Bounds j) | Some ip \<Rightarrow> Inr (ips @ [ip])"
  have "length ips = n \<and> (\<forall>j < n. cf_server_ips cfg j = Some (ips ! j))" if "fold_res ?f [0..<n] [] = Inr ips" for n ips
    using that
  proof (induction n arbitrary: ips)
    case (Suc n)
    then show ?case by (auto simp: fold_res_append nth_append less_Suc_eq split: sum.splits option.splits)
  qed simp
  from this [OF assms [unfolded copy_ips_def]]
  show "length ips = nat (sint (cf_count_server_ips cfg))" "j < length ips \<Longrightarrow> cf_server_ips cfg j = Some (ips ! j)"
    by auto
qed

lemma copy_ips_initialised:
  assumes "\<And>j. j < nat (sint (cf_count_server_ips cfg)) \<Longrightarrow> cf_server_ips cfg j \<noteq> None"
  shows "\<exists>ips. copy_ips cfg = Inr ips"
proof -
  have "\<exists>ips. copy_ips cfg = Inr ips \<and> True"
    unfolding copy_ips_def by (rule fold_res_ok) (use assms in \<open>auto split: option.split\<close>)
  then show ?thesis by simp
qed

lemma fill_contexts_eq:
  assumes "fold_res (fill_context cfg rx tx my_eth (int k)) [0..<n] ([], 0, 0) = Inr (cntxs, next_qid, findex)"
  shows "cntxs = map (core_context cfg rx tx my_eth k) [0..<n] \<and> next_qid = int (n * k) \<and>
     (cf_mode cfg = mode_server \<longrightarrow> findex = int n) \<and> n \<le> MAX_CNTXS \<and>
     (0 < n \<longrightarrow> n * k \<le> unat (cf_num_queues cfg) \<and> (cf_mode cfg \<noteq> mode_server \<longrightarrow> (\<exists>ips. copy_ips cfg = Inr ips)))"
  using assms
proof (induction n arbitrary: cntxs next_qid findex)
  case (Suc n)
  obtain cxs q f where pre: "fold_res (fill_context cfg rx tx my_eth (int k)) [0..<n] ([], 0, 0) = Inr (cxs, q, f)"
    and step: "fill_context cfg rx tx my_eth (int k) n (cxs, q, f) = Inr (cntxs, next_qid, findex)"
    using Suc.prems by (auto simp: fold_res_append split: sum.splits)
  note IH = Suc.IH [OF pre]
  then have q: "(word_of_int q :: u16) = of_nat (n * k)" by (simp only: of_int_of_nat_eq)
  have "q + int k - 1 < int (unat (cf_num_queues cfg))"
    using step by (simp add: fill_context_def Let_def split: if_splits del: of_nat_unat)
  with IH have bound: "int (Suc n * k) \<le> int (unat (cf_num_queues cfg))" by (simp add: algebra_simps del: of_nat_unat)
  show ?case
    using step IH bound [unfolded of_nat_le_iff]
    by (auto simp: fill_context_def Let_def q core_context_def algebra_simps split: if_splits sum.splits)
qed (simp add: core_context_def)

text \<open>What \<open>main\<close> does when all goes well.\<close>

lemma main_contexts_eq:
  assumes "main_contexts E d pid cfg calls = Inr (cntxs, calls')"
  obtains rx tx k where "cntxs = map (core_context cfg rx tx (rte_eth_macaddr_get d 0) k) [0..<rte_lcore_count E]"
    and "k = unat (cf_num_queues cfg) div rte_lcore_count E" and "rte_lcore_count E * k = unat (cf_num_queues cfg)"
    and "0 < rte_lcore_count E" and "0 < k" and "rte_lcore_count E \<le> MAX_CNTXS"
    and "cf_mode cfg \<noteq> mode_server \<Longrightarrow> \<exists>ips. copy_ips cfg = Inr ips"
    and "\<exists>nb_rxd nb_txd. calls' = port_setup_calls 0 rx (cf_num_queues cfg) nb_rxd nb_txd @
       [Pool_Create (pool_name ''MBUF_TX_POOL_'' pid), Pool_Create (pool_name ''MUBF_RX_POOL_'' pid)] @ calls"
proof -
  let ?n = "rte_lcore_count E" and ?q = "unat (cf_num_queues cfg)"
  let ?k = "?q div ?n"
  have core: "0 < ?n" "?n \<le> ?q" "?q mod ?n = 0"
    using assms by (auto simp: main_contexts_def Let_def split: if_splits sum.splits prod.splits)
  then have k: "?n * ?k = ?q" "0 < ?k" by (auto simp: div_greater_zero_iff dvd_eq_mod_eq_0)
  obtain rx tx calls1 where pools: "create_pools E pid calls = Inr (rx, tx, calls1)"
    using assms by (auto simp: main_contexts_def Let_def split: if_splits sum.splits)
  obtain eth where init: "dpdk_port_init E d 0 rx (cf_num_queues cfg) calls1 = (0, eth, calls')"
    using assms pools by (auto simp: main_contexts_def Let_def split: if_splits sum.splits prod.splits)
  note init' = dpdk_port_init_ok [OF init]
  obtain q f where "fold_res (fill_context cfg rx tx (rte_eth_macaddr_get d 0) (int ?k)) [0..<?n] ([], 0, 0) = Inr (cntxs, q, f)"
    using assms pools init init'
    by (auto simp: main_contexts_def Let_def zdiv_int [symmetric] split: if_splits sum.splits prod.splits)
  from fill_contexts_eq [OF this] core have "cntxs = map (core_context cfg rx tx (rte_eth_macaddr_get d 0) ?k) [0..<?n]"
    "?n \<le> MAX_CNTXS" "cf_mode cfg \<noteq> mode_server \<Longrightarrow> \<exists>ips. copy_ips cfg = Inr ips" by auto
  moreover have "calls1 = [Pool_Create (pool_name ''MBUF_TX_POOL_'' pid), Pool_Create (pool_name ''MUBF_RX_POOL_'' pid)] @ calls"
    using pools by (auto simp: create_pools_def Let_def split: option.splits)
  ultimately show thesis using that [of rx tx ?k] core(1) k init' by auto
qed

lemma concat_ranges: "concat (map (\<lambda>i. [i * k..<i * k + k]) [0..<n]) = [0..<n * k]"
proof (induction n)
  case (Suc n)
  have "[0..<n * k + k] = [0..<n * k] @ [n * k..<n * k + k]" by (rule upt_add_eq_append) simp
  with Suc show ?case by (simp add: add.commute)
qed simp

lemma core_queue_bound: "i < n \<Longrightarrow> n * k = unat (q :: u16) \<Longrightarrow> i * k + k \<le> unat q"
  by (metis Suc_leI add.commute mult_Suc mult_le_mono1)

lemma core_queues:
  assumes "i < n" and "n * k = unat (cf_num_queues cfg)"
  shows "unat (cx_default_qid (core_context cfg rx tx eth k i)) = i * k"
    and "unat (cx_count_queues (core_context cfg rx tx eth k i)) = k"
    and "cf_mode cfg = mode_server \<Longrightarrow>
      cx_managed_queues (core_context cfg rx tx eth k i) = map of_nat [i * k..<i * k + k]"
proof -
  have b: "i * k + k \<le> unat (cf_num_queues cfg)" using core_queue_bound [OF assms] .
  then have "i * k < 65536 \<or> k = 0" "k < 65536" using unat_bound(2) [of "cf_num_queues cfg"] by linarith+
  then have k: "k < 65536" "i * k < 65536" by auto
  show "unat (cx_default_qid (core_context cfg rx tx eth k i)) = i * k"
    using k by (simp add: core_context_def Let_def server_context_def client_context_def unsigned_of_nat take_bit_nat_eq_self
        flip: of_nat_mult)
  show "unat (cx_count_queues (core_context cfg rx tx eth k i)) = k"
    using k by (simp add: core_context_def Let_def server_context_def client_context_def unsigned_of_nat take_bit_nat_eq_self)
  show "cx_managed_queues (core_context cfg rx tx eth k i) = map of_nat [i * k..<i * k + k]" if "cf_mode cfg = mode_server"
    using that by (simp add: core_context_def Let_def server_context_def map_add_upt [symmetric] o_def add.commute)
qed

lemma unat_of_nat_queue:
  assumes "m < unat (q :: u16)"
  shows "unat (of_nat m :: u32) = m" "unat (of_nat m :: u16) = m"
proof -
  have "m < 65536" using assms unat_bound(2) [of q] by (rule order.strict_trans)
  then show "unat (of_nat m :: u32) = m" "unat (of_nat m :: u16) = m"
    by (simp_all add: unsigned_of_nat take_bit_nat_eq_self)
qed

lemma port_setup_has_queue:
  assumes "q < unat queues"
  shows "Rx_Queue_Setup port (of_nat q) nb_rxd pool \<in> set (port_setup_calls port pool queues nb_rxd nb_txd)"
    and "Tx_Queue_Setup port (of_nat q) nb_txd \<in> set (port_setup_calls port pool queues nb_rxd nb_txd)"
  using assms by (auto simp: port_setup_calls_def)

lemma core_context_ok:
  assumes "valid_config cfg" and "i < n" and "n * k = unat (cf_num_queues cfg)" and "0 < k"
    and "cf_mode cfg \<noteq> mode_server \<Longrightarrow> \<exists>ips. copy_ips cfg = Inr ips"
  shows "context_ok cfg (core_context cfg rx tx eth k i)"
proof -
  let ?cx = "core_context cfg rx tx eth k i"
  have inv: "config_inv cfg" "cf_source_ip cfg \<noteq> 0" and client: "cf_mode cfg \<noteq> mode_server \<Longrightarrow> 0 < cf_count_server_ips cfg \<and> 0 < cf_batch cfg"
    using assms(1) by (auto simp: valid_config_def)
  note queues = core_queues [OF assms(2,3), of rx tx eth] and bound = core_queue_bound [OF assms(2,3)]
  have pos: "0 < cx_count_queues ?cx" using queues(2) assms(4) by (metis unat_gt_0 word_gt_0)
  show ?thesis
  proof (cases "cf_mode cfg = mode_server")
    case True
    have "list_all (\<lambda>q. unat q < unat (cf_num_queues cfg)) (cx_managed_queues ?cx)"
      using bound by (auto simp: queues(3) [OF True] list_all_iff unat_of_nat_queue [of _ "cf_num_queues cfg"])
    then show ?thesis
      using True pos queues bound inv(2) by (simp add: context_ok_def) (simp add: core_context_def server_context_def)
  next
    case False
    obtain ips where ips: "copy_ips cfg = Inr ips" using assms(5) [OF False] by blast
    have "unat (cf_count_server_ips cfg) \<le> 32" "0 < cf_payload_size cfg" "cf_payload_size cfg < 0x80000000"
      using inv(1) by (auto simp: config_inv_def)
    then have pay: "unat (cf_payload_size cfg) < 2 ^ 31" "0 < unat (cf_payload_size cfg)"
      and n: "unat (cf_count_server_ips cfg) < 2 ^ 31" "unat (cf_count_server_ips cfg) \<le> 32" "0 < unat (cf_count_server_ips cfg)"
      using client [OF False] by (auto simp: word_less_nat_alt)
    note s = sint_small_u32 [OF pay(1)] sint_small_u32 [OF n(1)]
    show ?thesis
      using False pos queues(1,2) bound inv(2) client [OF False] copy_ips_ok(1) [OF ips] pay(2) n(2,3) s
      by (simp add: context_ok_def del: of_nat_unat) (simp add: core_context_def client_context_def ips del: of_nat_unat)
  qed
qed

lemma server_core:
  assumes "main_contexts E d pid cfg calls = Inr (cntxs, calls')" and "cf_mode cfg = mode_server" and "i < length cntxs"
  defines "k \<equiv> unat (cf_num_queues cfg) div rte_lcore_count E"
  shows "unat (cx_count_queues (cntxs ! i)) = k" and "cx_managed_queues (cntxs ! i) = map of_nat [i * k..<i * k + k]"
    and "0 < k" and "\<And>m. m < i * k + k \<Longrightarrow> unat (ucast (of_nat m :: u32) :: u16) = m"
proof -
  obtain rx tx where cntxs: "cntxs = map (core_context cfg rx tx (rte_eth_macaddr_get d 0) k) [0..<rte_lcore_count E]"
    and k: "rte_lcore_count E * k = unat (cf_num_queues cfg)" "0 < k"
    using main_contexts_eq [OF assms(1)] k_def by metis
  have i: "i < rte_lcore_count E" using assms(3) by (simp add: cntxs)
  have cx: "cntxs ! i = core_context cfg rx tx (rte_eth_macaddr_get d 0) k i" using i by (simp add: cntxs)
  show "unat (cx_count_queues (cntxs ! i)) = k" "cx_managed_queues (cntxs ! i) = map of_nat [i * k..<i * k + k]" "0 < k"
    using core_queues(2,3) [OF i k(1), of rx tx "rte_eth_macaddr_get d 0", folded cx] assms(2) k(2) by simp_all
  show "unat (ucast (of_nat m :: u32) :: u16) = m" if "m < i * k + k" for m
    using unat_of_nat_queue(2) [of m "cf_num_queues cfg"] that core_queue_bound [OF i k(1)] by (simp add: unsigned_of_nat)
qed

lemma server_core_queues_ok:
  assumes "main_contexts E d pid cfg calls = Inr (cntxs, calls')" and "cf_mode cfg = mode_server" and "i < length cntxs"
  shows "queues_ok (cntxs ! i) \<longleftrightarrow> i = 0"
proof -
  note core = server_core [OF assms]
  let ?k = "unat (cf_num_queues cfg) div rte_lcore_count E"
  have "list_all (\<lambda>q. unat (ucast q :: u16) < ?k) (cx_managed_queues (cntxs ! i)) \<longleftrightarrow> (\<forall>m \<in> {i * ?k..<i * ?k + ?k}. m < ?k)"
    by (auto simp: core(2) list_all_iff core(4))
  also have "\<dots> \<longleftrightarrow> i = 0" using core(3) by (cases i) auto
  finally show ?thesis using core(1,3) by (simp add: queues_ok_def core(2) word_gt_0) (metis core(1) unat_0 not_gr_zero)
qed

section \<open>Starting and stopping the workers\<close>

text \<open>Every context is started exactly once.\<close>

lemma launches_once: "cntxs \<noteq> [] \<Longrightarrow> mset (launches cntxs) = mset cntxs"
proof (cases cntxs)
  case (Cons cx cxs)
  have "map (\<lambda>i. (cx # cxs) ! i) [1..<Suc (length cxs)] = cxs"
    by (rule nth_equalityI) (simp_all add: nth_append del: upt_Suc)
  then show ?thesis by (simp add: launches_def Cons)
qed simp

lemma stop_workers_all:
  assumes "n = length cntxs" and "n \<le> MAX_CNTXS"
  shows "stop_workers n cntxs = Inr (map (\<lambda>cx. cx\<lparr>cx_running := False\<rparr>) cntxs)"
proof -
  let ?f = "\<lambda>i cntxs. if i < MAX_CNTXS then Inr (cntxs[i := (cntxs ! i)\<lparr>cx_running := False\<rparr>]) else Inl (Out_Of_Bounds i)"
  have "fold_res ?f [0..<m] cntxs = Inr (map (\<lambda>cx. cx\<lparr>cx_running := False\<rparr>) (take m cntxs) @ drop m cntxs)"
    if "m \<le> n" for m
    using that
  proof (induction m)
    case (Suc m)
    have len: "length (map (\<lambda>cx. cx\<lparr>cx_running := False\<rparr>) (take m cntxs)) = m" using Suc.prems assms(1) by simp
    have "drop m cntxs = cntxs ! m # drop (Suc m) cntxs" using Suc.prems assms(1) by (simp add: Cons_nth_drop_Suc)
    then show ?case
      using Suc assms by (simp add: fold_res_append nth_append list_update_append take_Suc_conv_app_nth)
  qed simp
  from this [of n] show ?thesis using assms by (simp add: stop_workers_def)
qed

text \<open>The signal handler stops every worker that was started.\<close>

lemma handle_main_int_stops:
  assumes "main_contexts E d pid cfg calls = Inr (cntxs, calls')"
  shows "handle_main_int E (sig, cntxs) = Inr (True, map (\<lambda>cx. cx\<lparr>cx_running := False\<rparr>) cntxs)"
  using assms
proof (rule main_contexts_eq)
  fix rx tx k
  assume "cntxs = map (core_context cfg rx tx (rte_eth_macaddr_get d 0) k) [0..<rte_lcore_count E]" "rte_lcore_count E \<le> MAX_CNTXS"
  then show ?thesis by (simp add: handle_main_int_def stop_workers_all)
qed

section \<open>Properties\<close>

text \<open>C10. The queues of the port are divided among the cores: the ranges \<open>default_qid\<close> to
  \<open>default_qid + count_queues\<close> of the contexts, in order, are the numbers of all queues, each exactly
  once; so are a server's managed queues; and both directions of every one of them have been set
  up.\<close>

theorem main_queue_partition:
  assumes "main_contexts E d pid cfg calls = Inr (cntxs, calls')"
  shows "length cntxs = rte_lcore_count E \<and>
     concat (map (\<lambda>cx. [unat (cx_default_qid cx)..<unat (cx_default_qid cx) + unat (cx_count_queues cx)]) cntxs) =
       [0..<unat (cf_num_queues cfg)] \<and>
     (cf_mode cfg = mode_server \<longrightarrow> concat (map (\<lambda>cx. map unat (cx_managed_queues cx)) cntxs) = [0..<unat (cf_num_queues cfg)]) \<and>
     (\<forall>q < unat (cf_num_queues cfg). \<exists>nb_rxd nb_txd pool.
        Rx_Queue_Setup 0 (of_nat q) nb_rxd pool \<in> set calls' \<and> Tx_Queue_Setup 0 (of_nat q) nb_txd \<in> set calls')"
  using assms
proof (rule main_contexts_eq)
  fix rx tx k
  let ?n = "rte_lcore_count E" and ?q = "unat (cf_num_queues cfg)"
  assume cntxs: "cntxs = map (core_context cfg rx tx (rte_eth_macaddr_get d 0) k) [0..<?n]" and q: "?n * k = ?q"
    and calls: "\<exists>nb_rxd nb_txd. calls' = port_setup_calls 0 rx (cf_num_queues cfg) nb_rxd nb_txd @
       [Pool_Create (pool_name ''MBUF_TX_POOL_'' pid), Pool_Create (pool_name ''MUBF_RX_POOL_'' pid)] @ calls"
  have ranges: "concat (map (\<lambda>cx. [unat (cx_default_qid cx)..<unat (cx_default_qid cx) + unat (cx_count_queues cx)]) cntxs) = [0..<?q]"
    unfolding q [symmetric] concat_ranges [symmetric] cntxs map_map
    by (intro arg_cong [where f = concat] map_cong refl) (use core_queues(1,2) [OF _ q] in auto)
  have managed: "concat (map (\<lambda>cx. map unat (cx_managed_queues cx)) cntxs) = [0..<?q]" if server: "cf_mode cfg = mode_server"
    unfolding q [symmetric] concat_ranges [symmetric] cntxs map_map
  proof (intro arg_cong [where f = concat] map_cong refl)
    fix i assume "i \<in> set [0..<?n]"
    then have i: "i < ?n" by simp
    show "((\<lambda>cx. map unat (cx_managed_queues cx)) \<circ> core_context cfg rx tx (rte_eth_macaddr_get d 0) k) i = [i * k..<i * k + k]"
      using core_queue_bound [OF i q]
      by (auto simp: core_queues(3) [OF i q server] intro!: map_idI unat_of_nat_queue(1) [of _ "cf_num_queues cfg"])
  qed
  have "\<exists>nb_rxd nb_txd pool. Rx_Queue_Setup 0 (of_nat i) nb_rxd pool \<in> set calls' \<and> Tx_Queue_Setup 0 (of_nat i) nb_txd \<in> set calls'"
    if "i < ?q" for i
    using calls port_setup_has_queue [OF that] by (metis Un_iff set_append)
  then show ?thesis
    using ranges managed by (simp add: cntxs)
qed

text \<open>C9. Every command line the program accepts gives a valid configuration and at least one and at most
  20 contexts, each fit for its worker: it has queues of the port, a server has as many managed
  queues as \<open>count_queues\<close> says, a client as many addresses as \<open>count_dst_ip\<close> says, between one and
  32, a positive batch and payload size.\<close>

theorem app_main_contexts_ok:
  assumes "app_main E d F rte_eal_init pid argv = Inr (cfg, cntxs, calls)"
  shows "valid_config cfg \<and> cntxs \<noteq> [] \<and> length cntxs \<le> MAX_CNTXS \<and> list_all (context_ok cfg) cntxs"
proof -
  have cfg: "parse_args F rte_eal_init argv = Inr cfg" and ctx: "main_contexts E d pid cfg [] = Inr (cntxs, calls)"
    using assms by (auto simp: app_main_def guard_res_def split: sum.splits)
  have valid: "valid_config cfg" using cfg by (rule parse_args_config)
  from ctx show ?thesis
    by (rule main_contexts_eq) (use valid core_context_ok [OF valid] in \<open>auto simp: list_all_iff\<close>)
qed

text \<open>C20. \<open>main\<close> and \<open>do_server\<close> together: the first core of a server gets queues its worker can use as
  indices into \<open>queue_status\<close>; every other core's worker accesses memory outside that array in its
  first round, unless it is told to stop or the clock jumps by a minute.\<close>

theorem multicore_server_fails:
  assumes "main_contexts E d pid cfg calls = Inr (cntxs, calls')" and "cf_mode cfg = mode_server" and "i < length cntxs"
    and "running (Timer_Read (rte_get_timer_cycles D t) # t)"
    and "rte_get_timer_cycles D (Timer_Read (rte_get_timer_cycles D t) # t) - rte_get_timer_cycles D t \<le> 60 * rte_get_timer_hz D"
  shows "if i = 0 then queues_ok (cntxs ! i)
     else do_server D (cntxs ! i) running t =
            Some (Inl (Out_Of_Bounds (i * (unat (cf_num_queues cfg) div rte_lcore_count E))))"
proof (cases "i = 0")
  case True
  then show ?thesis using server_core_queues_ok [OF assms(1-3)] by simp
next
  case False
  note core = server_core [OF assms(1-3)]
  let ?k = "unat (cf_num_queues cfg) div rte_lcore_count E"
  have k: "?k \<le> i * ?k" "0 < cx_count_queues (cntxs ! i)"
    using False core(1,3) by (auto simp: word_gt_0)
  have "server_iter D (cntxs ! i) s t1 = Some (Inl (Out_Of_Bounds (i * ?k)))"
    if "sv_q_index s = 0" "length (sv_queue_status s) = ?k" "rte_get_timer_cycles D t1 - sv_exp_begin s \<le> 60 * rte_get_timer_hz D"
    for s t1
    using server_iter_queue_oob [of s "cntxs ! i" D t1] that k core(3) core(4) [of "i * ?k"] by (simp add: core(2))
  then show ?thesis
    using False assms(4,5) by (simp add: do_server_def server_loop_def trace_simps worker_loop.simps core(1))
qed

text \<open>C24. Port initialisation checks every step. The calls are: configure, adjust the number of
  descriptors, set up every queue in order for receiving and then for sending, each with the
  number of descriptors the device gave back, and start. They are made one after the other as
  long as each succeeds, by the device's answer at that point. Exactly when all do is the result
  0 and the MAC address stored; otherwise the first call that fails is the last one made, the
  result is -1, or what starting the port returned if that is what failed, and no address is
  stored. An invalid port gives -1 without any call.\<close>

theorem dpdk_port_init_calls:
  assumes "port = ucast port8"
    and "rte_eth_dev_adjust_nb_rx_tx_desc E (Dev_Configure port queues queues port_conf # calls) port RX_RING_SIZE TX_RING_SIZE =
      (ret, nb_rxd, nb_txd)"
    and "plan = rev (port_setup_calls port pool queues nb_rxd nb_txd)"
    and "dpdk_port_init E d port8 pool queues calls = (r, eth, calls')"
  shows "if rte_eth_dev_is_valid_port E port
     then \<exists>i \<le> length plan. (\<forall>j < i. call_ok E (rev (take j plan) @ calls) (plan ! j)) \<and>
       (if i = length plan
        then r = 0 \<and> eth = Some (rte_eth_macaddr_get d port) \<and> calls' = rev plan @ calls
        else \<not> call_ok E (rev (take i plan) @ calls) (plan ! i) \<and> eth = None \<and> calls' = rev (take (Suc i) plan) @ calls \<and>
          r = (if plan ! i = Dev_Start port then rte_eth_dev_start E (rev (take i plan) @ calls) port else - 1))
     else r = - 1 \<and> eth = None \<and> calls' = calls"
proof (cases "rte_eth_dev_is_valid_port E port")
  case True
  obtain ok calls1 where run: "run_calls E plan calls = (ok, calls1)" by fastforce
  then obtain i where i: "i \<le> length plan" "\<forall>j < i. call_ok E (rev (take j plan) @ calls) (plan ! j)"
    "if ok then i = length plan \<and> calls1 = rev plan @ calls
     else i < length plan \<and> \<not> call_ok E (rev (take i plan) @ calls) (plan ! i) \<and> calls1 = rev (take (Suc i) plan) @ calls"
    using run_calls_stops by blast
  have init: "(r, eth, calls') = (if ok then (0, Some (rte_eth_macaddr_get d port), calls1)
      else (case hd calls1 of Dev_Start _ \<Rightarrow> rte_eth_dev_start E (tl calls1) port | _ \<Rightarrow> - 1, None, calls1))"
    using dpdk_port_init_run [OF True assms(2,1)] assms(3,4) run by simp
  show ?thesis
  proof (cases ok)
    case ok: True
    then show ?thesis using True i init by auto
  next
    case False
    then have last: "calls1 = plan ! i # rev (take i plan) @ calls" "i < length plan"
      using i(3) by (simp_all add: take_Suc_conv_app_nth)
    have "plan ! i \<in> set plan" using last(2) by simp
    then have "case_dev_call (\<lambda>_. x) (\<lambda>_ _ _ _. x) (\<lambda>_ _ _. x) (\<lambda>_ _ _ _. x) (\<lambda>_ _ _. x) (\<lambda>_. y) (plan ! i) =
        (if plan ! i = Dev_Start port then y else x)" for x y :: int
      by (auto simp: assms(3) port_setup_calls_def)
    then have "r = (if plan ! i = Dev_Start port then rte_eth_dev_start E (rev (take i plan) @ calls) port else - 1)"
      and "eth = None" and "calls' = rev (take (Suc i) plan) @ calls"
      using False i(3) init by (simp_all add: last(1))
    then show ?thesis using True False i last(2) by (simp only: if_True) (intro exI [of _ i], simp)
  qed
next
  case False
  then show ?thesis using assms(1,4) by (simp add: dpdk_port_init_def)
qed

section \<open>Examples\<close>

lemma main_example: "\<exists>cntxs calls. main_contexts (sim_dev 2) arp_sim 7 server_config_example [] = Inr (cntxs, calls) \<and>
   length cntxs = 2"
proof -
  have upt: "[0..<4] = [0, 1, 2, 3 :: nat]" by (simp add: upt_conv_Cons)
  show ?thesis
    by (simp add: main_contexts_def create_pools_def dpdk_port_init_def sim_dev_def server_config_example_def zero_config_def
        Let_def upt fill_context_def upt_rec)
qed

theorem main_queue_partition_witness:
  "\<exists>cntxs calls. main_contexts (sim_dev 2) arp_sim 7 server_config_example [] = Inr (cntxs, calls) \<and>
     concat (map (\<lambda>cx. map unat (cx_managed_queues cx)) cntxs) = [0, 1, 2, 3]"
proof -
  obtain cntxs calls where m: "main_contexts (sim_dev 2) arp_sim 7 server_config_example [] = Inr (cntxs, calls)"
    using main_example by blast
  have "cf_mode server_config_example = mode_server" "unat (cf_num_queues server_config_example) = 4" "[0..<4] = [0, 1, 2, 3 :: nat]"
    by (simp_all add: server_config_example_def zero_config_def upt_conv_Cons)
  with main_queue_partition [OF m] m show ?thesis by auto
qed

theorem dpdk_port_init_calls_witness:
  "\<exists>calls. dpdk_port_init (sim_dev 1) arp_sim 0 5 2 [] = (0, Some (Ether_Addr 2 0 0 0 0 2), calls) \<and>
     calls = port_setup_calls 0 5 2 512 512"
proof -
  obtain r eth calls where i: "dpdk_port_init (sim_dev 1) arp_sim 0 5 2 [] = (r, eth, calls)" by (metis prod_cases3)
  have r: "r = 0" using i by (simp add: dpdk_port_init_def sim_dev_def Let_def upt_rec)
  have valid: "rte_eth_dev_is_valid_port (sim_dev 1) 0"
    and adjust: "rte_eth_dev_adjust_nb_rx_tx_desc (sim_dev 1) [Dev_Configure 0 2 2 port_conf] 0 512 512 = (0, 512, 512)"
    and mac: "rte_eth_macaddr_get arp_sim 0 = Ether_Addr 2 0 0 0 0 2"
    by (simp_all add: sim_dev_def arp_sim_def sim_def)
  have "(0 :: u16) = ucast (0 :: u8)" by simp
  note init = dpdk_port_init_calls [OF this adjust refl i, unfolded if_P [OF valid]]
  have "call_ok (sim_dev 1) cs c" for cs c by (simp add: call_ok_def sim_dev_def split: dev_call.split)
  then have "eth = Some (rte_eth_macaddr_get arp_sim 0) \<and> calls = rev (rev (port_setup_calls 0 5 2 512 512)) @ []"
    using init by metis
  then show ?thesis using i r mac by simp
qed

lemma app_main_runs: "case app_main (sim_dev 1) d F no_eal 7 server_argv of Inl e \<Rightarrow> False | Inr r \<Rightarrow> True"
  by code_simp

theorem app_main_contexts_ok_witness:
  "\<exists>cfg cntxs calls. app_main (sim_dev 1) arp_sim exact_fpu no_eal 7 server_argv = Inr (cfg, cntxs, calls) \<and>
     cntxs \<noteq> [] \<and> list_all (context_ok cfg) cntxs"
proof -
  obtain cfg cntxs calls where m: "app_main (sim_dev 1) arp_sim exact_fpu no_eal 7 server_argv = Inr (cfg, cntxs, calls)"
    using app_main_runs [of arp_sim exact_fpu] by (auto split: sum.splits)
  from app_main_contexts_ok [OF m] m show ?thesis by blast
qed

theorem multicore_server_fails_witness:
  "\<exists>cntxs calls. main_contexts (sim_dev 2) arp_sim 7 server_config_example [] = Inr (cntxs, calls) \<and>
     do_server arp_sim (cntxs ! 1) (\<lambda>_. True) [] = Some (Inl (Out_Of_Bounds 2))"
proof -
  obtain cntxs calls where m: "main_contexts (sim_dev 2) arp_sim 7 server_config_example [] = Inr (cntxs, calls)" "length cntxs = 2"
    using main_example by blast
  have cfg: "cf_mode server_config_example = mode_server" "unat (cf_num_queues server_config_example) = 4" "rte_lcore_count (sim_dev 2) = 2"
    by (simp_all add: server_config_example_def zero_config_def sim_dev_def)
  have clock: "rte_get_timer_cycles arp_sim (Timer_Read c # []) - rte_get_timer_cycles arp_sim [] \<le> 60 * rte_get_timer_hz arp_sim" for c
    by (simp add: arp_sim_def sim_def)
  from multicore_server_fails [OF m(1) cfg(1), of 1 "\<lambda>_. True" arp_sim "[]"] m cfg clock show ?thesis by simp
qed

end
