(* ===== verification/Flow_Rules.thy ===== *)
theory Flow_Rules
  imports Headers
begin

text \<open>
  \<open>utils/flow_rules.c\<close>: rules that direct received packets to a queue, built from addresses and
  masks and handed to DPDK. The rules are data; \<open>rte_flow_validate\<close> and \<open>rte_flow_create\<close> are arguments.
  The lemmas say which packets a rule selects, by the documented meaning of a pattern.
\<close>

section \<open>Model\<close>

record item_eth =
  ie_src :: ether_addr
  ie_dst :: ether_addr

record item_vlan =
  iv_tci :: u16
  iv_inner_type :: u16

record item_ipv4 =
  ii_src_addr :: u32
  ii_dst_addr :: u32

text \<open>An element of the pattern with its \<open>spec\<close> and \<open>mask\<close>, which are null pointers in \<open>None\<close>.\<close>

datatype flow_item =
    ITEM_ETH "(item_eth \<times> item_eth) option"
  | ITEM_VLAN "(item_vlan \<times> item_vlan) option"
  | ITEM_IPV4 "(item_ipv4 \<times> item_ipv4) option"
  | ITEM_END

datatype flow_action = ACTION_QUEUE u16 | ACTION_END

record flow_attr =
  ingress :: bool

type_synonym flow_rule = "flow_attr \<times> flow_item list \<times> flow_action list"

text \<open>\<open>rte_flow_validate\<close> and \<open>rte_flow_create\<close>; \<open>None\<close> is the null pointer.\<close>

record 'flow flow_ops =
  rte_flow_validate :: "u16 \<Rightarrow> flow_rule \<Rightarrow> int"
  rte_flow_create :: "u16 \<Rightarrow> flow_rule \<Rightarrow> 'flow option"

definition ipv4_rule :: "dpdk \<Rightarrow> u16 \<Rightarrow> u32 \<Rightarrow> u32 \<Rightarrow> u32 \<Rightarrow> u32 \<Rightarrow> flow_rule" where
  "ipv4_rule d rx_q src_ip src_mask dest_ip dest_mask =
     (let vlan_spec = \<lparr>iv_tci = rte_cpu_to_be_16 d 0x6064, iv_inner_type = rte_cpu_to_be_16 d RTE_ETHER_TYPE_IPV4\<rparr>;
          vlan_mask = \<lparr>iv_tci = 0x0FFF, iv_inner_type = 0\<rparr>;
          ip_spec = \<lparr>ii_src_addr = rte_cpu_to_be_32 d src_ip, ii_dst_addr = rte_cpu_to_be_32 d dest_ip\<rparr>;
          ip_mask = \<lparr>ii_src_addr = rte_cpu_to_be_32 d src_mask, ii_dst_addr = rte_cpu_to_be_32 d dest_mask\<rparr>
      in (\<lparr>ingress = True\<rparr>,
          [ITEM_ETH None, ITEM_VLAN (Some (vlan_spec, vlan_mask)), ITEM_IPV4 (Some (ip_spec, ip_mask)), ITEM_END],
          [ACTION_QUEUE rx_q, ACTION_END]))"

definition generate_ipv4_flow ::
  "'flow flow_ops \<Rightarrow> dpdk \<Rightarrow> u16 \<Rightarrow> u16 \<Rightarrow> u32 \<Rightarrow> u32 \<Rightarrow> u32 \<Rightarrow> u32 \<Rightarrow> 'flow option" where
  "generate_ipv4_flow ops d port_id rx_q src_ip src_mask dest_ip dest_mask =
     (let rule = ipv4_rule d rx_q src_ip src_mask dest_ip dest_mask
      in if rte_flow_validate ops port_id rule = 0 then rte_flow_create ops port_id rule else None)"

definition eth_rule :: "u16 \<Rightarrow> ether_addr \<Rightarrow> ether_addr \<Rightarrow> ether_addr \<Rightarrow> ether_addr \<Rightarrow> flow_rule" where
  "eth_rule rx_q src src_mask dst dst_mask =
     (\<lparr>ingress = True\<rparr>,
      [ITEM_ETH (Some (\<lparr>ie_src = src, ie_dst = dst\<rparr>, \<lparr>ie_src = src_mask, ie_dst = dst_mask\<rparr>)), ITEM_END],
      [ACTION_QUEUE rx_q, ACTION_END])"

definition generate_eth_flow ::
  "'flow flow_ops \<Rightarrow> u16 \<Rightarrow> u16 \<Rightarrow> ether_addr \<Rightarrow> ether_addr \<Rightarrow> ether_addr \<Rightarrow> ether_addr \<Rightarrow> 'flow option" where
  "generate_eth_flow ops port_id rx_q src src_mask dst dst_mask =
     (let rule = eth_rule rx_q src src_mask dst dst_mask
      in if rte_flow_validate ops port_id rule = 0 then rte_flow_create ops port_id rule else None)"

abbreviation (input) "full_mask \<equiv> 0xFFFFFFFF :: u32"
abbreviation (input) "no_mask \<equiv> 0 :: u32"

definition eth_addr_full_mask :: ether_addr where
  "eth_addr_full_mask = Ether_Addr 0xFF 0xFF 0xFF 0xFF 0xFF 0xFF"

definition eth_addr_no_mask :: ether_addr where
  "eth_addr_no_mask = Ether_Addr 0 0 0 0 0 0"

section \<open>Specification\<close>

text \<open>Which packets a pattern selects: an item compares the bits of its header that are set in the mask,
  an item without \<open>spec\<close> accepts everything; headers follow each other.\<close>

fun mac_bits :: "(u8 \<Rightarrow> u8 \<Rightarrow> u8) \<Rightarrow> ether_addr \<Rightarrow> ether_addr \<Rightarrow> ether_addr" where
  "mac_bits f (Ether_Addr a0 a1 a2 a3 a4 a5) (Ether_Addr b0 b1 b2 b3 b4 b5) =
     Ether_Addr (f a0 b0) (f a1 b1) (f a2 b2) (f a3 b3) (f a4 b4) (f a5 b5)"

fun item_matches :: "flow_item \<Rightarrow> mem \<Rightarrow> nat \<Rightarrow> bool" where
  "item_matches (ITEM_ETH (Some (spec, msk))) f p \<longleftrightarrow>
     mac_bits (AND) (ld_mac f (p + ETH_SRC)) (ie_src msk) = mac_bits (AND) (ie_src spec) (ie_src msk) \<and>
     mac_bits (AND) (ld_mac f (p + ETH_DST)) (ie_dst msk) = mac_bits (AND) (ie_dst spec) (ie_dst msk)"
| "item_matches (ITEM_VLAN (Some (spec, msk))) f p \<longleftrightarrow>
     ld16 f (p + VLAN_TCI) AND iv_tci msk = iv_tci spec AND iv_tci msk \<and>
     ld16 f (p + VLAN_PROTO) AND iv_inner_type msk = iv_inner_type spec AND iv_inner_type msk"
| "item_matches (ITEM_IPV4 (Some (spec, msk))) f p \<longleftrightarrow>
     ld32 f (p + IP_SRC) AND ii_src_addr msk = ii_src_addr spec AND ii_src_addr msk \<and>
     ld32 f (p + IP_DST) AND ii_dst_addr msk = ii_dst_addr spec AND ii_dst_addr msk"
| "item_matches _ f p \<longleftrightarrow> True"

fun item_len :: "flow_item \<Rightarrow> nat" where
  "item_len (ITEM_ETH _) = ETHER_HDR_LEN"
| "item_len (ITEM_VLAN _) = VLAN_HDR_LEN"
| "item_len (ITEM_IPV4 _) = IPV4_HDR_LEN"
| "item_len ITEM_END = 0"

fun pattern_matches :: "flow_item list \<Rightarrow> mem \<Rightarrow> nat \<Rightarrow> bool" where
  "pattern_matches [] f p \<longleftrightarrow> True"
| "pattern_matches (ITEM_END # _) f p \<longleftrightarrow> True"
| "pattern_matches (i # is) f p \<longleftrightarrow> item_matches i f p \<and> pattern_matches is f (p + item_len i)"

definition rule_matches :: "flow_rule \<Rightarrow> mem \<Rightarrow> bool" where
  "rule_matches rule f = pattern_matches (fst (snd rule)) f 0"

section \<open>What the rules select\<close>

lemma mac_bits_masks [simp]:
  "mac_bits (AND) a eth_addr_full_mask = a" "mac_bits (AND) a eth_addr_no_mask = eth_addr_no_mask"
proof -
  have "(0xFF :: u8) = - 1" by simp
  then have ff: "(b :: u8) AND 0xFF = b" for b by (simp only: and.right_neutral)
  show "mac_bits (AND) a eth_addr_full_mask = a" "mac_bits (AND) a eth_addr_no_mask = eth_addr_no_mask"
    by (cases a; simp add: eth_addr_full_mask_def eth_addr_no_mask_def ff)+
qed

lemma eth_rule_matches:
  "rule_matches (eth_rule q src eth_addr_full_mask dst eth_addr_full_mask) f \<longleftrightarrow>
     ld_mac f ETH_SRC = src \<and> ld_mac f ETH_DST = dst"
  "rule_matches (eth_rule q src eth_addr_no_mask dst eth_addr_full_mask) f \<longleftrightarrow> ld_mac f ETH_DST = dst"
  by (auto simp: rule_matches_def eth_rule_def)

text \<open>On a little-endian host the mask \<open>0x0fff\<close> of the tag, stored without conversion, covers other bits
  than the twelve of the VLAN identifier: of the tag in network byte order, the priority bits
  and the lowest four bits of each half.\<close>

lemma bswap16_and: "bswap16 (a AND b) = bswap16 a AND bswap16 b"
  by (rule bit_word_eqI) (auto simp: bswap16_def word_size bit_word_cat_iff bit_simps)

lemma ipv4_rule_matches:
  assumes "rte_cpu_to_be_16 d = bswap16" and "rte_cpu_to_be_32 d = bswap32"
  shows "rule_matches (ipv4_rule d q src_ip full_mask dest_ip full_mask) f \<longleftrightarrow>
     bswap16 (ld16 f ETHER_HDR_LEN) AND 0xFF0F = 0x6004 \<and>
     ld32 f (18 + IP_SRC) = bswap32 src_ip \<and> ld32 f (18 + IP_DST) = bswap32 dest_ip"
proof -
  have tag: "x AND 0x0FFF = bswap16 0x6064 AND 0x0FFF \<longleftrightarrow> bswap16 x AND 0xFF0F = 0x6004" for x
  proof -
    have "x AND 0x0FFF = bswap16 0x6064 AND 0x0FFF \<longleftrightarrow> bswap16 (x AND 0x0FFF) = bswap16 (bswap16 0x6064 AND 0x0FFF)"
      by (metis bswap16_bswap16)
    moreover have "bswap16 0x0FFF = 0xFF0F" by (simp add: bswap16_def word_cat_eq ucast_eq)
    ultimately show ?thesis by (simp add: bswap16_and)
  qed
  have "bswap32 0xFFFFFFFF = (- 1 :: u32)" by (simp add: bswap32_def bswap16_def word_cat_eq ucast_eq)
  then have full: "(x :: u32) AND bswap32 0xFFFFFFFF = x" for x by (simp only: and.right_neutral)
  show ?thesis
    by (simp add: rule_matches_def ipv4_rule_def Let_def assms tag full)
qed

text \<open>So the rule refuses packets of VLAN 100 with another priority, and accepts packets of VLAN 116.\<close>

lemma ipv4_rule_wrong_vlan:
  assumes "rte_cpu_to_be_16 d = bswap16" and "rte_cpu_to_be_32 d = bswap32"
    and "f = st32 (st32 (st16 (\<lambda>_. 0) ETHER_HDR_LEN (bswap16 tci)) (18 + IP_SRC) (bswap32 src_ip)) (18 + IP_DST) (bswap32 dest_ip)"
  shows "tci = 0x0064 \<Longrightarrow> \<not> rule_matches (ipv4_rule d q src_ip full_mask dest_ip full_mask) f"
    and "tci = 0x6074 \<Longrightarrow> rule_matches (ipv4_rule d q src_ip full_mask dest_ip full_mask) f"
  unfolding ipv4_rule_matches [OF assms(1,2)] using assms(3) by (simp_all add: cell_simps)

end
