(* ===== verification/Exponential.thy ===== *)
theory Exponential
  imports Fpu
begin

text \<open>
  \<open>utils/exponential.c\<close>: a sample of the exponential distribution, from \<open>drand48\<close> of the C library,
  whose state is an argument. \<open>None\<close> is positive infinity, the result for the random number 0.
\<close>

text \<open>\<open>drand48\<close> of the C library: 48 bits of state, and its value in \<open>[0, 1)\<close>.\<close>

definition drand48 :: "nat \<Rightarrow> real \<times> nat" where
  "drand48 x = (let x = (25214903917 * x + 11) mod 2 ^ 48 in (real x / 2 ^ 48, x))"

definition get_exponential_sample :: "fpu \<Rightarrow> real \<Rightarrow> nat \<Rightarrow> real option \<times> nat" where
  "get_exponential_sample F lambda x =
     (if lambda \<le> 0 then (Some 0, x)
      else let (uniform, x) = drand48 x
           in (if uniform = 0 then None else Some (rnd F (- c_log F uniform / lambda)), x))"

lemma drand48_range:
  assumes "drand48 x = (u, x')"
  shows "0 \<le> u \<and> u < 1"
proof -
  have "(25214903917 * x + 11) mod 2 ^ 48 < (2 ^ 48 :: nat)" by (rule mod_less_divisor) (rule zero_less_power, rule zero_less_numeral)
  then have "x' < 2 ^ 48" using assms by (simp only: drand48_def Let_def prod.inject)
  then have "real x' < real (2 ^ 48)" by (rule of_nat_less_iff [THEN iffD2])
  then have "real x' / 2 ^ 48 < 1" by (simp only: of_nat_power of_nat_numeral divide_less_eq_1_pos zero_less_power zero_less_numeral)
  moreover have "u = real x' / 2 ^ 48" using assms unfolding drand48_def Let_def prod.inject by (elim conjE) (simp only:)
  ultimately show ?thesis by (simp only: zero_le_divide_iff of_nat_0_le_iff zero_le_power zero_le_numeral simp_thms)
qed

lemma exponential_sample_nonneg:
  assumes "fpu_ok F" and "\<And>u. 0 < u \<Longrightarrow> u \<le> 1 \<Longrightarrow> c_log F u \<le> 0" and "get_exponential_sample F lambda x = (Some y, x')"
  shows "0 \<le> y"
proof (cases "lambda \<le> 0")
  case False
  obtain u x1 where u: "drand48 x = (u, x1)" by fastforce
  then have "u \<noteq> 0" "y = rnd F (- c_log F u / lambda)"
    using assms(3) False by (auto simp: get_exponential_sample_def split: if_splits)
  moreover have "0 \<le> - c_log F u / lambda"
    using False drand48_range [OF u] assms(2) [of u] \<open>u \<noteq> 0\<close> by (simp add: divide_nonpos_nonneg)
  ultimately show ?thesis using rnd_nonneg [OF assms(1)] by simp
qed (use assms(3) in \<open>simp add: get_exponential_sample_def\<close>)

end
