(* ===== verification/Spec2Isabelle.thy ===== *)
theory Spec2Isabelle
  imports App Flow_Rules Exponential
begin

text \<open>
  A verification development of a DPDK traffic generator and echo server (\<open>main.c\<close>,
  \<open>server.c\<close>, \<open>client.c\<close>, \<open>latency_client.c\<close>,
  \<open>config.c\<close> and \<open>utils/\<close>).

  \<^bold>\<open>The program.\<close> \<open>main\<close> parses the command line into a
  configuration, creates two buffer pools, sets up one port with a number of queues, and fills a
  context for every core. Each core then runs one worker on its context. The server polls its
  queues, swaps addresses and ports of the packets addressed to it and sends them back; on request
  it answers ARP. The client resolves the MAC address of its destinations, sends bursts of UDP or
  TCP packets for a number of flows with a timestamp or a random number as payload, limits its
  rate, and measures latencies in a second thread that receives the echoes. The latency client
  sends one burst at a time and waits for the replies. The workers share nothing but the device; a
  flag in the context (for the latency client a static variable) stops them.

  \<^bold>\<open>The theories.\<close> \<open>Prelude\<close>: machine words, outcomes of C code
  as values, packet memory. \<open>Dpdk\<close>: the functions of DPDK that workers call, as
  arguments, and the shape all main loops share. \<open>Headers\<close>: layout of the protocol
  headers. \<open>Cstring\<close>: the C library functions on strings. \<open>Fpu\<close>:
  floating point numbers with rounding as an argument. \<open>Arp\<close>:
  \<open>utils/arp.c\<close>. \<open>Exp\<close>: \<open>utils/exp.c\<close> and
  \<open>include/exp.h\<close>, with \<open>struct context\<close> as the record
  \<open>cntx\<close>. \<open>Zipf\<close>: \<open>utils/zipf.c\<close>.
  \<open>Percentile\<close>: \<open>utils/percentile.c\<close>. \<open>Exponential\<close>:
  \<open>utils/exponential.c\<close>. \<open>Flow_Rules\<close>:
  \<open>utils/flow_rules.c\<close>. \<open>Packet\<close>: the headers under
  \<open>include/client\<close>. \<open>Config\<close>: \<open>config.c\<close>, with
  \<open>struct app_config\<close> as the record \<open>app_config\<close>. \<open>Server\<close>,
  \<open>Client\<close>, \<open>Latency_Client\<close>: the three workers, each with a record of
  the local variables its loop changes (\<open>server_state\<close>, \<open>client_state\<close>
  and \<open>receiver_state\<close>, \<open>latency_state\<close>). \<open>App\<close>:
  \<open>main.c\<close>. This theory: properties of packets on their way between the components.

  \<^bold>\<open>How code becomes definitions.\<close> A function of the source is a definition of
  the same name; the long worker functions are cut where the code nests: one packet, one burst,
  one round, the loop. Pointers into a packet are offsets into its bytes. What can stop the
  program (\<open>rte_exit\<close>, a failed \<open>assert\<close>, a null pointer, an index
  outside an array, a division by zero, an overflow of the numbers a table or a histogram is made
  of) is a value \<open>Inl\<close> of the result type, and every one of them is a branch of the
  model. A loop that may not end is a \<open>partial_function\<close>: \<open>None\<close> means
  that it never returns, and no fuel is used anywhere. Calls to the device, the clock and the pool
  are recorded in a \<open>trace\<close>, and each answers as a function of the trace before it,
  so a theorem holds for every behaviour of the device. A flag that another thread or a signal
  handler clears is an argument, a function of the trace. The two threads of the client are
  modelled one by one: what the other does is part of what the device answers.

  \<^bold>\<open>Interfaces.\<close> \<open>mem_cell\<close> is the contract of a field of a
  packet, interpreted for 1, 2, 4 and 8 byte integers and for MAC addresses; the proofs about
  headers rest on its laws. \<open>rx_handler\<close> is the contract of code that is given packet
  buffers one by one, met by the address resolver, and under the documented behaviour of the
  device by the server, the client, its receiver and the latency client; bursts and polls then
  keep the accounts. \<open>rank_source\<close> is what clients of the Zipf generator rely on.
  \<open>worker_loop\<close> with \<open>worker_step\<close> and \<open>worker_result\<close> is
  the main loop all workers share.

  \<^bold>\<open>What is shown.\<close> Accounting: the server, the client, its receiver thread
  and the address resolver free or send every buffer exactly once; for a round of the latency
  client exactly which buffers are lost: those of its burst the device refused and those of a poll
  that ended in a timeout. Server: when it is bidirectional and does not handle ARP it refines an
  abstract echo service, on every queue; the exact effect of a burst; transmission completes on a
  fair device; rounds are safe for workers whose queues start at 0, and fail for all others, which
  \<open>main\<close> creates on several cores; when the server stops. Client: choice of flows
  stays within its tables, ports take turns, the phases of a whole run (it returns exactly when it
  has sent for its duration and then waited two seconds), the flow table and when filling it never
  ends, failure with several destinations. Latencies: both clients record exactly the time between
  writing a timestamp and reading the clock on the echo's arrival, from the bytes of the packet
  through the server and back. Address resolution: request and reply fit together; the address
  found comes from a received reply; all outcomes of the resolver, round by round, when it never
  returns too. Packets: every header field of UDP, TCP and ARP packets, payload round trip,
  distinct client addresses. Zipf: the binary search equals a linear scan, and the rank's interval
  holds the random number, for tables whose construction succeeds; the generator's stream.
  Percentiles: nothing is lost, and the value of a percentile under any IEEE rounding, with the
  bounds between which it lies. Command line: accepted configurations are valid, destinations in
  order, addresses as text read back. \<open>main\<close>: queues are partitioned among the cores;
  port initialisation makes its calls in order and checks every result; every context is
  well-formed in its queue range, array lengths and required fields.

  \<^bold>\<open>Assumptions.\<close> DPDK behaves as documented (\<open>byteorder_ok\<close>,
  \<open>ether_ok\<close>, \<open>append_ok\<close>, \<open>rx_ok\<close>, \<open>tx_ok\<close>,
  \<open>alloc_ok\<close>, where a theorem names them) and the host is little-endian. Memory
  allocation succeeds. Floating point numbers are reals with an arbitrary rounding
  (\<open>fpu_ok\<close>, and \<open>float_ok\<close> for single precision), with infinity and NaN
  where the Zipf tables are computed. Theorems on a Zipf table are about one whose construction
  succeeded, so that every entry fits an \<open>int\<close>, and name the bound
  \<open>2 ^ 30\<close> on its ranks where the sum of two indices would overflow. The frequency of the timer
  is positive in the client's rate limit and in \<open>wait\<close>. \<open>rte_eal_init\<close>
  and rounding of floating point numbers are arguments.

  \<^bold>\<open>Not modelled.\<close> Printing (usage texts, progress,
  \<open>print_stats\<close>, \<open>print_mac\<close>), the output streams of the workers,
  releasing memory, the check for a remote NUMA node, which only prints, and
  \<open>test/zipf_test.c\<close>, which prints samples. The interleaving of the workers' steps on
  shared memory is not modelled: each worker is a function of what the device and the stop flag
  answer. Reads past the end of a short received packet, which the code does not check, are reads
  of the buffer's memory.
\<close>

section \<open>Address resolution between two hosts\<close>

text \<open>C4. The two sides of address resolution fit together: the request built for \<open>get_dst_mac\<close> by a
  host, arriving at the host that owns the address, makes \<open>check_eth_hdr\<close> there send a packet
  that the resolver of the first host accepts, and the MAC address it finds is the responder's.\<close>

theorem arp_exchange:
  assumes "byteorder_ok d" and "ether_ok d" and "append_ok d"
    and "data_len buf = 0" and "42 \<le> data_room d (buf_addr buf)"
    and "prepare_arp_pkt d buf RTE_ARP_OP_REQUEST mac_a ip_a broadcast_mac ip_b = Inr req"
    and "rte_pktmbuf_alloc d t pool = Some m" and "data_len m = 0" and "42 \<le> data_room d (buf_addr m)"
  shows "\<exists>reply n. check_eth_hdr d ip_b mac_b req pool cdq t = Inr (False, sent_once cdq m reply n t) \<and>
     arp_handle d mac_a ip_a reply (None, t') = Inr (Some (rte_eth_macaddr_get d 0), Mbuf_Free reply # t')"
proof -
  have req: "arp_packet d RTE_ARP_OP_REQUEST mac_a ip_a broadcast_addr ip_b req"
    using prepare_arp_pkt_ok [OF assms(3-5), of RTE_ARP_OP_REQUEST mac_a ip_a broadcast_addr ip_b] assms(6)
    by (auto simp: broadcast_mac_def broadcast_addr_def)
  obtain reply n where sent: "send_arp d RTE_ARP_OP_REPLY ip_b mac_a ip_a pool cdq t = Inr (sent_once cdq m reply n t)"
    and reply: "arp_packet d RTE_ARP_OP_REPLY (rte_eth_macaddr_get d 0) ip_b mac_a ip_a reply"
    using send_arp_sends [OF assms(3,7-9)] by blast
  have "check_eth_hdr d ip_b mac_b req pool cdq t = Inr (False, sent_once cdq m reply n t)"
    using req sent assms(1,2) by (simp add: check_eth_hdr_def arp_packet_def)
  moreover have "arp_handle d mac_a ip_a reply (None, t') = Inr (Some (rte_eth_macaddr_get d 0), Mbuf_Free reply # t')"
    using arp_packet_accepted [OF assms(1,2) reply]
    by (simp add: arp_handle_def arp_accepts_def trace_simps)
  ultimately show ?thesis by blast
qed

theorem arp_exchange_witness:
  "\<exists>req reply n. prepare_arp_pkt arp_sim (empty_mbuf 3) RTE_ARP_OP_REQUEST (Ether_Addr 2 0 0 0 0 1) 0xC0A80101
        broadcast_mac 0xC0A80102 = Inr req \<and>
     check_eth_hdr arp_sim 0xC0A80102 (Ether_Addr 2 0 0 0 0 2) req 1 0 [] =
        Inr (False, sent_once 0 (empty_mbuf 0) reply n []) \<and>
     arp_handle arp_sim (Ether_Addr 2 0 0 0 0 1) 0xC0A80101 reply (None, []) =
        Inr (Some (Ether_Addr 2 0 0 0 0 2), [Mbuf_Free reply])"
proof -
  have ok: "byteorder_ok arp_sim" "ether_ok arp_sim" "append_ok arp_sim"
    and room: "data_len (empty_mbuf a) = 0" "42 \<le> data_room arp_sim (buf_addr (empty_mbuf a))" for a
    by (simp_all add: arp_sim_def) (simp_all add: sim_def empty_mbuf_def)
  have alloc: "rte_pktmbuf_alloc arp_sim [] 1 = Some (empty_mbuf 0)"
    and mac: "rte_eth_macaddr_get arp_sim 0 = Ether_Addr 2 0 0 0 0 2"
    by (simp_all add: arp_sim_def sim_def)
  obtain req where req: "prepare_arp_pkt arp_sim (empty_mbuf 3) RTE_ARP_OP_REQUEST (Ether_Addr 2 0 0 0 0 1) 0xC0A80101
        broadcast_mac 0xC0A80102 = Inr req"
    using prepare_arp_pkt_ok [OF ok(3) room] by blast
  show ?thesis
    using arp_exchange [OF ok room req alloc room, of "Ether_Addr 2 0 0 0 0 2" 0 "[]"] req mac by auto
qed

section \<open>A packet's way from the client to the server and back\<close>

text \<open>The packet as it leaves the client: headers as built, the clock in the payload.\<close>

lemma stamped_packet:
  assumes "append_ok d" and "data_len buf = 0" and "select_client_addr info g = Inr (info', g')"
    and "ip_offset_of (pi_use_vlan info) + 28 + unat (pi_payload_length info) \<le> data_room d (buf_addr buf)"
    and "8 \<le> len" and "len \<le> 1509"
    and "prepare_udp d buf info g = Inr (b, info', g', Some p)" and "payload_timestamp d (Some p) len b t = Inr (b1, t1)"
  shows "p = ip_offset_of (pi_use_vlan info) + 28" and "udp_frame d info' b"
    and "\<exists>bs. pkt b1 = st_bytes (st64 (pkt b) p (rte_get_timer_cycles d t)) (p + 8) bs"
proof -
  show "p = ip_offset_of (pi_use_vlan info) + 28" "udp_frame d info' b"
    using prepare_udp_frame [OF assms(1-4)] assms(7) by auto
  show "\<exists>bs. pkt b1 = st_bytes (st64 (pkt b) p (rte_get_timer_cycles d t)) (p + 8) bs"
    using assms(8) by (auto simp: payload_timestamp_def trace_simps payload_constant_num_ok [OF assms(5,6)])
qed

text \<open>The fields of its echo.\<close>

lemma echo_of_stamped:
  assumes "udp_frame d info b" and "p = ip_offset_of (pi_use_vlan info) + 28"
    and "f = st_bytes (st64 (pkt b) p c) (p + 8) bs" and "ip = ip_offset_of (pi_use_vlan info)"
  shows "ld16 f ETH_TYPE = rte_cpu_to_be_16 d (if pi_use_vlan info then RTE_ETHER_TYPE_VLAN else RTE_ETHER_TYPE_IPV4)"
    and "ld32 f (ip + IP_DST) = rte_cpu_to_be_32 d (pi_dst_ip info)"
    and "ld_mac (echo_swap ip f) ETH_DST = pi_src_mac info"
    and "ld16 (echo_swap ip f) ETH_TYPE = ld16 f ETH_TYPE"
    and "ld8 (echo_swap ip f) (ip + IP_PROTO) = IPPROTO_UDP"
    and "ld32 (echo_swap ip f) (ip + IP_SRC) = rte_cpu_to_be_32 d (pi_dst_ip info)"
    and "ld16 (echo_swap ip f) (ip + IPV4_HDR_LEN + UDP_SRC) = rte_cpu_to_be_16 d (pi_dst_port info)"
    and "ld64 (echo_swap ip f) (ip + IPV4_HDR_LEN + UDP_HDR_LEN) = c"
  using assms
  by (cases "pi_use_vlan info"; simp add: udp_frame_def ip_frame_def ip_offset_of_def echo_swap_def Let_def cell_simps)+

text \<open>C6. The latency the client records is the time between writing the timestamp and reading it back: a
  packet built by \<open>prepare_udp\<close> and \<open>payload_timestamp\<close>, echoed by the server it is addressed to,
  and handled by the receiver thread of the client it came from, adds exactly the difference of
  the two clock readings, in microseconds, to the destination's histogram, is counted, and is
  freed. The receiver is built without the flags that change what it does with a packet.\<close>

theorem echo_latency_measured:
  assumes "byteorder_ok d" and "ether_ok d" and "append_ok d" and "data_len buf = 0"
    and "select_client_addr info g = Inr (info', g')"
    and "ip_offset_of (pi_use_vlan info) + 28 + unat (pi_payload_length info) \<le> data_room d (buf_addr buf)"
    and "8 \<le> len" and "len \<le> 1509"
    and "prepare_udp d buf info g = Inr (b, info', g', Some p)" and "payload_timestamp d (Some p) len b t = Inr (b1, t1)"
    and server: "\<not> cx_do_arp cxs" "cx_bidi cxs" "cx_use_vlan cxs = pi_use_vlan info"
      "cx_src_ip cxs = pi_dst_ip info" "sv_tx_buf s = []"
    and client: "cx_use_vlan cxc = pi_use_vlan info" "cx_my_eth cxc = pi_src_mac info" "cx_dst_ips cxc = [pi_dst_ip info]"
      "cx_count_dst_ip cxc = 1" "cx_base_port_number cxc = ucast (pi_dst_port info)"
      "\<not> bf_rx_just_drop fl" "\<not> bf_payload_number fl" "\<not> bf_rx_print_response fl" "rte_get_timer_hz d \<noteq> 0"
  shows "\<exists>s2 e. server_handle d cxs now b1 (s, t2) = Inr (s2, t2) \<and> sv_tx_buf s2 = [e] \<and>
     receiver_handle d F fl cxc end_time e (r, t3) =
       (let sent = rte_get_timer_cycles d t; received = rte_get_timer_cycles d t3;
            latency = (received - sent) * 1000 * 1000 div rte_get_timer_hz d
        in case add_number_to_p_hist F (rv_hist r ! 0) (rndf F (real (unat latency))) of
             Inl err \<Rightarrow> Inl err
           | Inr h \<Rightarrow> Inr (r\<lparr>rv_hist := (rv_hist r)[0 := h], rv_received := (rv_received r)[0 := rv_received r ! 0 + 1]\<rparr>,
                          Mbuf_Free e # Timer_Read received # t3))"
proof -
  let ?ip = "ip_offset_of (pi_use_vlan info)"
  note keeps = select_client_addr_keeps [OF assms(5)]
  note stamped = stamped_packet [OF assms(3-10)]
  obtain bs where f: "pkt b1 = st_bytes (st64 (pkt b) p (rte_get_timer_cycles d t)) (p + 8) bs"
    using stamped(3) by blast
  have offs: "p = ip_offset_of (pi_use_vlan info') + 28" "?ip = ip_offset_of (pi_use_vlan info')"
    using stamped(1) keeps by simp_all
  note fields = echo_of_stamped [OF stamped(2) offs(1) f offs(2)]
  have ip: "server_ip_offset cxs = ?ip"
    using server(3) by (simp add: server_ip_offset_def ip_offset_of_def)
  have acc: "server_accepts d cxs b1"
    using fields(1,2) assms(1) server(3,4) keeps by (simp add: server_accepts_def ip)
  let ?e = "echo_of cxs b1"
  have pkt_e: "pkt ?e = echo_swap ?ip (pkt b1)" by (simp add: echo_of_def ip)
  have handle: "server_handle d cxs now b1 (s, t2) = Inr ((server_seen now 1 s)\<lparr>sv_tx_buf := [?e]\<rparr>, t2)"
    using server acc server_packet_eq [OF server(2), of d now b1 s t2] by (simp add: server_handle_def)
  have type: "rte_be_to_cpu_16 d (ld16 (pkt ?e) ETH_TYPE) =
      (if pi_use_vlan info then RTE_ETHER_TYPE_VLAN else RTE_ETHER_TYPE_IPV4)"
    using fields(1,4) assms(1) keeps by (simp add: pkt_e)
  have check: "check_eth_hdr d (cx_src_ip cxc) (cx_my_eth cxc) ?e (cx_tx_mem_pool cxc) 0 t3 = Inr (True, t3)"
    using fields(3) type client(2) keeps check_eth_hdr_valid [OF assms(2)] by (simp add: pkt_e split: if_splits)
  have off: "(if cx_use_vlan cxc then ETHER_HDR_LEN + VLAN_HDR_LEN else ETHER_HDR_LEN) = ?ip"
    using client(1) by (simp add: ip_offset_of_def)
  have "receiver_handle d F fl cxc end_time ?e (r, t3) = receiver_packet d F fl cxc end_time ?e (r, t3)"
    using check client by (simp add: receiver_handle_def)
  also have "\<dots> = (case receiver_latency d F fl cxc (pkt ?e) ?ip 0 r t3 of Inl err \<Rightarrow> Inl err | Inr (r, t) \<Rightarrow> Inr (r, Mbuf_Free ?e # t))"
    unfolding receiver_packet_def off
    using type client fields(5,6) assms(1) keeps
    by (simp add: pkt_e receiver_report_def find_dst_def trace_simps split: sum.split)
  finally show ?thesis
    using handle fields(7,8) client assms(1) keeps
    by (simp add: receiver_latency_def pkt_e trace_simps split: sum.splits)
qed

definition receiver_start :: receiver_state where
  "receiver_start = \<lparr>rv_hist = [new_p_hist 5], rv_received = [0], rv_pkts = 0, rv_last_report = 0\<rparr>"

theorem echo_latency_measured_witness:
  "\<exists>b b1 t1 s2 e.
     prepare_udp client_sim (empty_mbuf 3) (info_example False) rng_init = Inr (b, info_example False, rng_init, Some 42) \<and>
     payload_timestamp client_sim (Some 42) 64 b [] = Inr (b1, t1) \<and>
     server_handle client_sim (server_cx 0) 5 b1 (server_start, []) = Inr (s2, []) \<and> sv_tx_buf s2 = [e] \<and>
     receiver_handle client_sim exact_fpu udp_flags client_cx 6 e (receiver_start, replicate 7 (Timer_Read 0)) =
       (case add_number_to_p_hist exact_fpu (new_p_hist 5) 7000 of
          Inl err \<Rightarrow> Inl err
        | Inr h \<Rightarrow> Inr (receiver_start\<lparr>rv_hist := [h], rv_received := [1]\<rparr>,
            Mbuf_Free e # Timer_Read 7 # replicate 7 (Timer_Read 0)))"
proof -
  let ?info = "info_example False"
  have ok: "byteorder_ok client_sim" "ether_ok client_sim" by (simp_all add: client_sim_def)
  have buf: "data_len (empty_mbuf 3) = 0" by (simp add: empty_mbuf_def)
  have sel: "select_client_addr ?info rng_init = Inr (?info, rng_init)"
    by (simp add: select_client_addr_def info_example_def)
  have room: "ip_offset_of (pi_use_vlan ?info) + 28 + unat (pi_payload_length ?info) \<le> data_room client_sim (buf_addr (empty_mbuf 3))"
    by (simp add: client_sim_ok ip_offset_of_def info_example_def)
  obtain b where b: "prepare_udp client_sim (empty_mbuf 3) ?info rng_init = Inr (b, ?info, rng_init, Some 42)"
    using prepare_udp_frame [OF client_sim_ok(1) buf sel room] by (auto simp: ip_offset_of_def info_example_def)
  obtain b1 t1 where b1: "payload_timestamp client_sim (Some 42) 64 b [] = Inr (b1, t1)"
    by (simp add: payload_timestamp_def trace_simps payload_constant_num_ok)
  have len: "(8 :: u64) \<le> 64" "(64 :: u64) \<le> 1509" by simp_all
  have server: "\<not> cx_do_arp (server_cx 0)" "cx_bidi (server_cx 0)" "cx_use_vlan (server_cx 0) = pi_use_vlan ?info"
      "cx_src_ip (server_cx 0) = pi_dst_ip ?info" "sv_tx_buf server_start = []"
    by (simp_all add: server_cx_def info_example_def server_start_def)
  have client: "cx_use_vlan client_cx = pi_use_vlan ?info" "cx_my_eth client_cx = pi_src_mac ?info"
      "cx_dst_ips client_cx = [pi_dst_ip ?info]" "cx_count_dst_ip client_cx = 1"
      "cx_base_port_number client_cx = ucast (pi_dst_port ?info)"
      "\<not> bf_rx_just_drop udp_flags" "\<not> bf_payload_number udp_flags" "\<not> bf_rx_print_response udp_flags" "rte_get_timer_hz client_sim \<noteq> 0"
    by (simp_all add: client_cx_def info_example_def udp_flags_def client_sim_ok)
  let ?t = "replicate 7 (Timer_Read 0)"
  have clock: "rte_get_timer_cycles client_sim [] = 0" "rte_get_timer_cycles client_sim ?t = 7"
      "rte_get_timer_hz client_sim = 1000" and round: "rndf exact_fpu x = x" for x
    by (simp_all add: client_sim_ok exact_fpu_def)
  have latency: "((7 :: u64) - 0) * 1000 * 1000 div 1000 = 7000" "real (unat (7000 :: u64)) = 7000" by simp_all
  have start: "rv_hist receiver_start ! 0 = new_p_hist 5" "(rv_hist receiver_start)[0 := h] = [h]"
      "(rv_received receiver_start)[0 := rv_received receiver_start ! 0 + 1] = [1]" for h
    by (simp_all add: receiver_start_def)
  show ?thesis
    using echo_latency_measured [OF ok client_sim_ok(1) buf sel room len b b1 server client, of 5 "[]" exact_fpu 6 receiver_start ?t]
      b b1
    unfolding Let_def clock round latency start by blast
qed

text \<open>The same for the latency client, whose packets carry no VLAN tag.\<close>

lemma echo_fields:
  assumes "ip = ETHER_HDR_LEN"
  shows "ld_mac (echo_swap ip f) ETH_DST = ld_mac f ETH_SRC" and "ld16 (echo_swap ip f) ETH_TYPE = ld16 f ETH_TYPE"
    and "ld64 (echo_swap ip f) 42 = ld64 f 42"
  using assms by (simp_all add: echo_swap_def Let_def cell_simps)

text \<open>C11. What the latency client measures: a packet it has built, echoed by the server it is addressed to,
  adds the time from writing its timestamp to the reading of the clock after its arrival, in
  nanoseconds, to the measurements, is counted as received, and is freed.\<close>

theorem latency_echo_measured:
  assumes "byteorder_ok d" and "ether_ok d" and "append_ok d" and "data_len buf = 0"
    and "8 \<le> cx_payload_length cxl" and "cx_payload_length cxl \<le> 65507"
    and "42 + nat (cx_payload_length cxl) \<le> data_room d (buf_addr buf)"
    and built: "latency_build d cxl server_eth buf (bufs, t) = Inr (bufs', t1)"
    and server: "\<not> cx_do_arp cxs" "cx_bidi cxs" "\<not> cx_use_vlan cxs" "cx_src_ip cxs = cx_dst_ips cxl ! 0" "sv_tx_buf s = []"
    and "rte_get_timer_hz d \<noteq> 0" and "length (lc_measurements r) + 1 < max_measure_size"
  shows "\<exists>s2 e. server_handle d cxs now (last bufs') (s, t2) = Inr (s2, t2) \<and> sv_tx_buf s2 = [e] \<and>
     latency_packet d cxl 0 resp e (r, t3) =
       Inr (r\<lparr>lc_nb_tx := lc_nb_tx r - 1,
              lc_measurements := lc_measurements r @
                [(resp - rte_get_timer_cycles d t) * 1000000000 div rte_get_timer_hz d]\<rparr>, Mbuf_Free e # t3)"
proof -
  obtain b where b: "bufs' = bufs @ [b]" "latency_frame d cxl server_eth (rte_get_timer_cycles d t) b"
    using latency_build_frame [OF assms(3-7), of server_eth bufs t] built by auto
  have ip: "server_ip_offset cxs = 14" using server(3) by (simp add: server_ip_offset_def)
  note frame = b(2) [unfolded latency_frame_def Let_def]
  have acc: "server_accepts d cxs b"
    using frame assms(1) server(3,4) by (simp add: server_accepts_def ip)
  let ?e = "echo_of cxs b"
  have handle: "server_handle d cxs now b (s, t2) = Inr ((server_seen now 1 s)\<lparr>sv_tx_buf := [?e]\<rparr>, t2)"
    using server acc server_packet_eq [OF server(2), of d now b s t2] by (simp add: server_handle_def)
  have e: "for_us cxl ?e" "ether_type_of d ?e = RTE_ETHER_TYPE_IPV4"
    "latency_of d 0 resp ?e = (resp - rte_get_timer_cycles d t) * 1000000000 div rte_get_timer_hz d"
    using frame assms(1) by (simp_all add: for_us_def ether_type_of_def latency_of_def echo_of_def ip echo_fields)
  have "latency_packet d cxl 0 resp ?e (r, t3) = Inr (r\<lparr>lc_nb_tx := lc_nb_tx r - 1,
        lc_measurements := lc_measurements r @ [latency_of d 0 resp ?e]\<rparr>, Mbuf_Free ?e # t3)"
    using latency_packet_eq [OF assms(2,14) _ assms(15), of ?e cxl 0 resp t3] e(1,2) by simp
  then show ?thesis using handle unfolding e(3) by (simp add: b(1))
qed

theorem latency_echo_measured_witness:
  "\<exists>b s2 e. latency_build latency_sim latency_cx (Ether_Addr 2 0 0 0 0 2) (empty_mbuf 3) ([], []) = Inr ([b], [Timer_Read 0]) \<and>
     server_handle latency_sim (server_cx 0) 5 b (server_start, []) = Inr (s2, []) \<and> sv_tx_buf s2 = [e] \<and>
     latency_packet latency_sim latency_cx 0 7 e (\<lparr>lc_nb_tx = 1, lc_measurements = []\<rparr>, []) =
       Inr (\<lparr>lc_nb_tx = 0, lc_measurements = [7000000]\<rparr>, [Mbuf_Free e])"
proof -
  have ok: "byteorder_ok latency_sim" "ether_ok latency_sim" "append_ok latency_sim" by (simp_all add: latency_sim_def)
  have buf: "data_len (empty_mbuf 3) = 0" "8 \<le> cx_payload_length latency_cx" "cx_payload_length latency_cx \<le> 65507"
      "42 + nat (cx_payload_length latency_cx) \<le> data_room latency_sim (buf_addr (empty_mbuf 3))"
    by (simp_all add: empty_mbuf_def latency_cx_def latency_sim_ok)
  obtain b where b: "latency_build latency_sim latency_cx (Ether_Addr 2 0 0 0 0 2) (empty_mbuf 3) ([], []) = Inr ([b], [Timer_Read 0])"
    using latency_build_frame [OF ok(3) buf, of "Ether_Addr 2 0 0 0 0 2" "[]" "[]"] by (auto simp: latency_sim_ok)
  have server: "\<not> cx_do_arp (server_cx 0)" "cx_bidi (server_cx 0)" "\<not> cx_use_vlan (server_cx 0)"
      "cx_src_ip (server_cx 0) = cx_dst_ips latency_cx ! 0" "sv_tx_buf server_start = []"
    by (simp_all add: server_cx_def latency_cx_def server_start_def)
  let ?r = "\<lparr>lc_nb_tx = 1, lc_measurements = []\<rparr>"
  have hz: "rte_get_timer_hz latency_sim \<noteq> 0" "length (lc_measurements ?r) + 1 < max_measure_size" by (simp_all add: latency_sim_ok)
  show ?thesis
    using latency_echo_measured [OF ok buf b server hz, of 5 "[]" 7 "[]"] b by (simp add: latency_sim_ok)
qed

end
